theory Spec2Isabelle
  imports Main
begin

section \<open>Expressions, as the rule classifier reads them\<close>

text \<open>
  The pattern trees handed to \<^verbatim>\<open>definitions.py\<close> are elements of the expression layer:
  atoms (symbols, integers, strings) and compound expressions with a head and a list of
  elements.  Names are strings; the context mark is the backquote character.
\<close>

datatype expr =
    Symbol string
  | Integer int
  | String string
  | Expression expr "expr list"

text \<open>\<^verbatim>\<open>isinstance(pattern, Atom)\<close>: every element that is not a compound expression.\<close>

fun is_Atom :: "expr \<Rightarrow> bool" where
  "is_Atom (Expression h es) = False"
| "is_Atom _ = True"

text \<open>
  Modelled from the spec: the accessors \<^verbatim>\<open>get_name\<close>, \<^verbatim>\<open>get_head_name\<close>,
  \<^verbatim>\<open>get_lookup_name\<close> and \<^verbatim>\<open>sameQ\<close> of the expression layer are not part of the
  sources; the interface section gives them as "head name", "lookup name" (the symbol
  name of the leftmost head) and a structural-equality predicate.  An element that is not
  a symbol has the empty name.  The \<^verbatim>\<open>elements\<close> of a compound expression are the list
  its constructor holds.
\<close>

fun get_name :: "expr \<Rightarrow> string" where
  "get_name (Symbol n) = n"
| "get_name _ = []"

fun get_head_name :: "expr \<Rightarrow> string" where
  "get_head_name (Expression h es) = get_name h"
| "get_head_name (Symbol n) = ''System`Symbol''"
| "get_head_name (Integer i) = ''System`Integer''"
| "get_head_name (String s) = ''System`String''"

fun leftmost_head_name :: "expr \<Rightarrow> string" where
  "leftmost_head_name (Symbol n) = n"
| "leftmost_head_name (Integer i) = ''System`Integer''"
| "leftmost_head_name (String s) = ''System`String''"
| "leftmost_head_name (Expression h es) = leftmost_head_name h"

fun get_lookup_name :: "expr \<Rightarrow> string" where
  "get_lookup_name (Expression h es) = leftmost_head_name h"
| "get_lookup_name a = get_name a"

definition sameQ :: "expr \<Rightarrow> expr \<Rightarrow> bool" where
  "sameQ a b = (a = b)"

section \<open>The rule classifier\<close>

text \<open>
  \<^verbatim>\<open>get_tag_position(pattern, name)\<close>: the category of a rule with left-hand side
  \<^verbatim>\<open>pattern\<close> for the symbol \<^verbatim>\<open>name\<close>, or \<^verbatim>\<open>None\<close>.  The branches are in the order of
  the source's \<^verbatim>\<open>if\<close>/\<^verbatim>\<open>elif\<close> chain; the final loop over the elements falls through
  to \<^verbatim>\<open>return None\<close>.
\<close>

fun get_tag_position :: "expr \<Rightarrow> string \<Rightarrow> string option" where
  "get_tag_position (Expression h es) name =
     (if get_name (Expression h es) = name then Some ''own''
      else
        (let head_name = get_head_name (Expression h es) in
         if head_name = name then Some ''down''
         else if head_name = ''System`N'' \<and> length es = 2 then Some ''n''
         else if head_name = ''System`Condition'' \<and> length es > 0 then
           (case es of e # rest \<Rightarrow> get_tag_position e name | [] \<Rightarrow> None)
         else if get_lookup_name (Expression h es) = name then Some ''sub''
         else if (\<exists>element \<in> set es. get_lookup_name element = name) then Some ''up''
         else None))"
| "get_tag_position a name =
     (if get_name a = name then Some ''own'' else None)"

section \<open>Rules and ordered rule lists\<close>

text \<open>
  Modelled from the spec: the class of rules is not part of the sources.  A rule exposes
  the pattern it matches on, its replacement, and an ordering key (its precedence); rules
  compare by that key, which is what \<^verbatim>\<open>bisect\<close> uses.  The field \<^verbatim>\<open>pattern\<close> of the
  record is the expression of the rule's pattern, \<^verbatim>\<open>rule.pattern.expr\<close> in the source; the
  pattern object around it, \<^verbatim>\<open>rule.pattern\<close>, is built from that expression alone and is
  modelled below, where the source hands the object itself to the classifier.
\<close>

record rule =
  pattern :: expr
  replace :: expr
  precedence :: int

definition rule_lt :: "rule \<Rightarrow> rule \<Rightarrow> bool" where
  "rule_lt a b = (precedence a < precedence b)"

text \<open>
  \<^verbatim>\<open>bisect.bisect_left(a, x)\<close>, the binary search of the standard library:
  \<^verbatim>\<open>while lo < hi: mid = (lo + hi) // 2; if a[mid] < x: lo = mid + 1 else: hi = mid\<close>.
  The index \<^verbatim>\<open>mid\<close> is below \<^verbatim>\<open>hi\<close>, hence in range whenever \<^verbatim>\<open>hi\<close> is at most the
  length of the list.
\<close>

function bisect_left :: "rule list \<Rightarrow> rule \<Rightarrow> nat \<Rightarrow> nat \<Rightarrow> nat" where
  "bisect_left a x lo hi =
     (if lo < hi then
        (let mid = (lo + hi) div 2 in
         if rule_lt (a ! mid) x then bisect_left a x (mid + 1) hi
         else bisect_left a x lo mid)
      else lo)"
  by pat_completeness auto
termination
  by (relation "measure (\<lambda>(a, x, lo, hi). hi - lo)") auto

declare bisect_left.simps [simp del]

text \<open>\<^verbatim>\<open>bisect.insort_left(a, x)\<close>: \<^verbatim>\<open>a.insert(bisect_left(a, x), x)\<close>.\<close>

definition insort_left :: "rule list \<Rightarrow> rule \<Rightarrow> rule list" where
  "insort_left a x =
     (let lo = bisect_left a x 0 (length a) in take lo a @ x # drop lo a)"

text \<open>
  The loop of \<^verbatim>\<open>insert_rule\<close>: delete the first rule whose pattern is the same as the
  given one, and stop (\<^verbatim>\<open>break\<close>).
\<close>

fun delete_same_pattern :: "rule list \<Rightarrow> expr \<Rightarrow> rule list" where
  "delete_same_pattern [] p = []"
| "delete_same_pattern (existing # values) p =
     (if sameQ (pattern existing) p then values
      else existing # delete_same_pattern values p)"

definition insert_rule :: "rule list \<Rightarrow> rule \<Rightarrow> rule list" where
  "insert_rule values rule = insort_left (delete_same_pattern values (pattern rule)) rule"

section \<open>Exceptions\<close>

text \<open>The exceptions that the modelled code can raise.\<close>

datatype error =
    RecursionError
  | IndexError
  | AssertionError
  | AttributeError

section \<open>Pattern objects\<close>

text \<open>
  Modelled from the spec: the class of pattern objects is not part of the sources.  The
  source shows that the \<^verbatim>\<open>pattern\<close> of a rule is an object around the expression
  (\<^verbatim>\<open>existing.pattern.expr\<close>) with a \<^verbatim>\<open>sameQ\<close> of its own, which compares the
  expressions.  The object is created from the expression; its \<^verbatim>\<open>get_name\<close>,
  \<^verbatim>\<open>get_head_name\<close> and \<^verbatim>\<open>get_lookup_name\<close> are those of the expression; it is no
  instance of \<^verbatim>\<open>Atom\<close>, also when its expression is one; the object of a compound
  expression has as \<^verbatim>\<open>elements\<close> the pattern objects of the expression's elements, and
  the object of an atom has no attribute \<^verbatim>\<open>elements\<close>.
\<close>

datatype Pattern = Pattern_create expr

fun expr_of :: "Pattern \<Rightarrow> expr" where
  "expr_of (Pattern_create e) = e"

text \<open>
  \<^verbatim>\<open>get_tag_position(pattern, name)\<close> when \<^verbatim>\<open>pattern\<close> is a pattern object, as in
  \<^verbatim>\<open>Definition.add_rule\<close>.  The test \<^verbatim>\<open>isinstance(pattern, Atom)\<close> is false of every
  pattern object, so the object of an atom goes on through the chain: reading
  \<^verbatim>\<open>pattern.elements\<close> raises \<^verbatim>\<open>AttributeError\<close> there, in the tests of the lengths (which
  come after the test of the head name, by \<^verbatim>\<open>and\<close>) and in the final loop.
\<close>

function (sequential) get_tag_position_pattern :: "Pattern \<Rightarrow> string \<Rightarrow> error + string option" where
  "get_tag_position_pattern (Pattern_create (Expression h es)) name =
     (if get_name (Expression h es) = name then Inr (Some ''own'')
      else
        (let head_name = get_head_name (Expression h es) in
         if head_name = name then Inr (Some ''down'')
         else if head_name = ''System`N'' \<and> length es = 2 then Inr (Some ''n'')
         else if head_name = ''System`Condition'' \<and> length es > 0 then
           (case es of
              e # rest \<Rightarrow> get_tag_position_pattern (Pattern_create e) name
            | [] \<Rightarrow> Inr None)
         else if get_lookup_name (Expression h es) = name then Inr (Some ''sub'')
         else if (\<exists>element \<in> set es. get_lookup_name element = name) then Inr (Some ''up'')
         else Inr None))"
| "get_tag_position_pattern (Pattern_create a) name =
     (if get_name a = name then Inr (Some ''own'')
      else
        (let head_name = get_head_name a in
         if head_name = name then Inr (Some ''down'')
         else if head_name = ''System`N'' then Inl AttributeError
         else if head_name = ''System`Condition'' then Inl AttributeError
         else if get_lookup_name a = name then Inr (Some ''sub'')
         else Inl AttributeError))"
  by pat_completeness auto
termination
  by (relation "measure (\<lambda>(p, name). size (expr_of p))") auto

section \<open>Definition records\<close>

type_synonym addr = nat

text \<open>
  Modelled from the spec: the constant \<^verbatim>\<open>A_NO_ATTRIBUTES\<close> of the attributes module is
  not part of the sources; attributes are a bit set, and this is the empty one.
\<close>

definition A_NO_ATTRIBUTES :: int where
  "A_NO_ATTRIBUTES = 0"

text \<open>
  A \<^verbatim>\<open>Definition\<close> object.  The rule lists of the seven list-valued categories are held
  in the record: the program never makes two objects share one of them (the merge builds
  each with \<^verbatim>\<open>sum(..., [])\<close>, a new list).  The lists of format values are shared
  between objects by the merge, so \<^verbatim>\<open>formatvalues\<close> is a dictionary from the form name to
  the address of a list object in the store.  \<^verbatim>\<open>builtin_instance\<close> is the attribute
  \<^verbatim>\<open>builtin\<close>; \<^verbatim>\<open>changed\<close> is absent until \<^verbatim>\<open>mark_changed\<close> sets it.
\<close>

record Definition =
  name :: string
  ownvalues :: "rule list"
  downvalues :: "rule list"
  subvalues :: "rule list"
  upvalues :: "rule list"
  formatvalues :: "(string \<times> addr) list"
  messages :: "rule list"
  attributes :: int
  options :: "string \<rightharpoonup> expr"
  nvalues :: "rule list"
  defaultvalues :: "rule list"
  builtin_instance :: "addr option"
  is_numeric :: bool
  changed :: "nat option"

text \<open>\<^verbatim>\<open>Definition(name=nm)\<close> with every other argument at its default.\<close>

definition Definition_init :: "string \<Rightarrow> Definition" where
  "Definition_init nm =
     \<lparr> name = nm, ownvalues = [], downvalues = [], subvalues = [], upvalues = [],
       formatvalues = [], messages = [], attributes = A_NO_ATTRIBUTES,
       options = Map.empty, nvalues = [], defaultvalues = [],
       builtin_instance = None, is_numeric = False, changed = None \<rparr>"

text \<open>\<^verbatim>\<open>pos.isalpha()\<close> on the ASCII position names the program uses.\<close>

definition isalpha :: "string \<Rightarrow> bool" where
  "isalpha pos =
     (pos \<noteq> [] \<and>
      list_all (\<lambda>c. c \<in> set ''abcdefghijklmnopqrstuvwxyzABCDEFGHIJKLMNOPQRSTUVWXYZ'') pos)"

text \<open>
  \<^verbatim>\<open>get_values_list(pos)\<close>: the assertion, the messages, and \<^verbatim>\<open>getattr\<close> on the name
  \<^verbatim>\<open>pos + "values"\<close>, which raises for a name that is no attribute.  For \<^verbatim>\<open>"format"\<close>
  the attribute is the dictionary of format values, no rule list: \<^verbatim>\<open>insert_rule\<close> on it
  raises (a dictionary has no \<^verbatim>\<open>insert\<close>, its keys no \<^verbatim>\<open>pattern\<close>).
\<close>

definition get_values_list :: "Definition \<Rightarrow> string \<Rightarrow> error + rule list" where
  "get_values_list d pos =
     (if \<not> isalpha pos then Inl AssertionError
      else if pos = ''messages'' then Inr (messages d)
      else if pos = ''own'' then Inr (ownvalues d)
      else if pos = ''down'' then Inr (downvalues d)
      else if pos = ''sub'' then Inr (subvalues d)
      else if pos = ''up'' then Inr (upvalues d)
      else if pos = ''n'' then Inr (nvalues d)
      else if pos = ''default'' then Inr (defaultvalues d)
      else Inl AttributeError)"

text \<open>
  The list \<^verbatim>\<open>get_values_list\<close> returned is the object's own list; a change made to it in
  place is a change of the field.  \<^verbatim>\<open>put_values_list\<close> writes the changed list back; it
  is used only at a position \<^verbatim>\<open>get_values_list\<close> has accepted.
\<close>

definition put_values_list :: "Definition \<Rightarrow> string \<Rightarrow> rule list \<Rightarrow> Definition" where
  "put_values_list d pos rules =
     (if pos = ''messages'' then d\<lparr>messages := rules\<rparr>
      else if pos = ''own'' then d\<lparr>ownvalues := rules\<rparr>
      else if pos = ''down'' then d\<lparr>downvalues := rules\<rparr>
      else if pos = ''sub'' then d\<lparr>subvalues := rules\<rparr>
      else if pos = ''up'' then d\<lparr>upvalues := rules\<rparr>
      else if pos = ''n'' then d\<lparr>nvalues := rules\<rparr>
      else if pos = ''default'' then d\<lparr>defaultvalues := rules\<rparr>
      else d)"

text \<open>\<^verbatim>\<open>Definition.add_rule_at(rule, position)\<close>: insert in place, return \<^verbatim>\<open>True\<close>.\<close>

definition add_rule_at :: "Definition \<Rightarrow> rule \<Rightarrow> string \<Rightarrow> error + (bool \<times> Definition)" where
  "add_rule_at d rule position =
     (case get_values_list d position of
        Inl e \<Rightarrow> Inl e
      | Inr values \<Rightarrow> Inr (True, put_values_list d position (insert_rule values rule)))"

text \<open>
  \<^verbatim>\<open>Definition.add_rule(rule)\<close>: classify the rule's pattern object against the
  definition's own name; an exception of the classifier leaves the method.  \<^verbatim>\<open>if pos:\<close>
  is false for \<^verbatim>\<open>None\<close> (and for the empty string, which the classifier never returns).
\<close>

definition add_rule :: "Definition \<Rightarrow> rule \<Rightarrow> error + (bool \<times> Definition)" where
  "add_rule d rule =
     (case get_tag_position_pattern (Pattern_create (pattern rule)) (name d) of
        Inl e \<Rightarrow> Inl e
      | Inr None \<Rightarrow> Inr (False, d)
      | Inr (Some pos) \<Rightarrow> if pos = [] then Inr (False, d) else add_rule_at d rule pos)"

text \<open>
  The loop of \<^verbatim>\<open>remove_rule\<close>: delete the first rule whose pattern is the same as the
  left-hand side and return \<^verbatim>\<open>True\<close>; \<^verbatim>\<open>None\<close> when the loop ends without a match.
\<close>

fun remove_first :: "rule list \<Rightarrow> expr \<Rightarrow> rule list option" where
  "remove_first [] lhs = None"
| "remove_first (existing # values) lhs =
     (if sameQ (pattern existing) lhs then Some values
      else map_option (\<lambda>rest. existing # rest) (remove_first values lhs))"

definition remove_rule :: "Definition \<Rightarrow> expr \<Rightarrow> error + (bool \<times> Definition)" where
  "remove_rule d lhs =
     (case get_tag_position lhs (name d) of
        None \<Rightarrow> Inr (False, d)
      | Some position \<Rightarrow>
          if position = [] then Inr (False, d)
          else
            (case get_values_list d position of
               Inl e \<Rightarrow> Inl e
             | Inr values \<Rightarrow>
                 (case remove_first values lhs of
                    None \<Rightarrow> Inr (False, d)
                  | Some values' \<Rightarrow> Inr (True, put_values_list d position values'))))"

section \<open>Names and contexts\<close>

text \<open>
  Modelled from the spec: \<^verbatim>\<open>strip_context\<close> and \<^verbatim>\<open>fully_qualified_symbol_name\<close> are
  imported from modules that are not part of the sources.  The first gives the
  context-stripped short form of a name, the part after its last context mark.  The second
  holds of a name that contains the mark, neither starts nor ends with it, and has no two
  marks in a row.
\<close>

definition strip_context :: "string \<Rightarrow> string" where
  "strip_context nm = rev (takeWhile (\<lambda>c. c \<noteq> CHR ''`'') (rev nm))"

fun has_double_mark :: "string \<Rightarrow> bool" where
  "has_double_mark (a # b # cs) =
     ((a = CHR ''`'' \<and> b = CHR ''`'') \<or> has_double_mark (b # cs))"
| "has_double_mark cs = False"

text \<open>\<^verbatim>\<open>name.startswith("`")\<close>.\<close>

definition starts_with_mark :: "string \<Rightarrow> bool" where
  "starts_with_mark nm = (case nm of [] \<Rightarrow> False | c # cs \<Rightarrow> c = CHR ''`'')"

definition fully_qualified_symbol_name :: "string \<Rightarrow> bool" where
  "fully_qualified_symbol_name nm =
     (CHR ''`'' \<in> set nm \<and> \<not> starts_with_mark nm \<and> last nm \<noteq> CHR ''`''
      \<and> \<not> has_double_mark nm)"

section \<open>The state of the interpreter\<close>

text \<open>
  A \<^verbatim>\<open>Definitions\<close> object: the three namespaces and the cache of combined definitions
  hold references to \<^verbatim>\<open>Definition\<close> objects; \<^verbatim>\<open>proxy\<close> is a \<^verbatim>\<open>defaultdict(set)\<close>, a
  function whose value at an absent key is the empty set.  The objects live in a store:
  \<^verbatim>\<open>defn_heap\<close> holds the \<^verbatim>\<open>Definition\<close> objects and \<^verbatim>\<open>list_heap\<close> the list objects of
  the format values; an address at or above \<^verbatim>\<open>next_addr\<close> has not been handed out yet,
  and creating an object takes the address \<^verbatim>\<open>next_addr\<close>.
\<close>

record Definitions =
  builtin :: "string \<rightharpoonup> addr"
  user :: "string \<rightharpoonup> addr"
  pymathics :: "string \<rightharpoonup> addr"
  definitions_cache :: "string \<rightharpoonup> addr"
  lookup_cache :: "string \<rightharpoonup> string"
  proxy :: "string \<Rightarrow> string set"
  now :: nat
  current_context :: string
  context_path :: "string list"
  defn_heap :: "addr \<Rightarrow> Definition"
  list_heap :: "addr \<Rightarrow> rule list"
  next_addr :: addr

text \<open>
  \<^verbatim>\<open>clear_cache(name=None)\<close>.  The loop over the popped bucket removes each of its names
  from both caches; the order in which a set is walked does not matter for that.
\<close>

definition clear_cache :: "Definitions \<Rightarrow> string option \<Rightarrow> Definitions" where
  "clear_cache s name_opt =
     (case name_opt of
        None \<Rightarrow>
          s\<lparr>definitions_cache := Map.empty, lookup_cache := Map.empty, proxy := (\<lambda>k. {})\<rparr>
      | Some nm \<Rightarrow>
          (let tail = strip_context nm; bucket = proxy s tail in
           s\<lparr>proxy := (proxy s)(tail := {}),
             definitions_cache := (\<lambda>k. if k \<in> bucket then None else definitions_cache s k),
             lookup_cache := (\<lambda>k. if k \<in> bucket then None else lookup_cache s k)\<rparr>))"

text \<open>\<^verbatim>\<open>clear_definitions_cache(name)\<close>: the same walk, on the cache of definitions only.\<close>

definition clear_definitions_cache :: "Definitions \<Rightarrow> string \<Rightarrow> Definitions" where
  "clear_definitions_cache s nm =
     (let tail = strip_context nm; bucket = proxy s tail in
      s\<lparr>proxy := (proxy s)(tail := {}),
        definitions_cache := (\<lambda>k. if k \<in> bucket then None else definitions_cache s k)\<rparr>)"

section \<open>Looking a name up\<close>

text \<open>
  \<^verbatim>\<open>lookup_name\<close> calls \<^verbatim>\<open>have_definition\<close>, which calls \<^verbatim>\<open>get_definition\<close>, which
  calls \<^verbatim>\<open>lookup_name\<close>.  The bodies are written over the function they call; the
  recursion is tied below with a bound on its depth.

  The loop of \<^verbatim>\<open>lookup_name\<close> over \<^verbatim>\<open>self.context_path\<close>: the first \<^verbatim>\<open>ctx + name\<close> that
  has a definition is returned; \<^verbatim>\<open>None\<close> when the loop ends.  The current context is not
  tried (the test on \<^verbatim>\<open>with_context\<close> is commented out in the source).
\<close>

fun lookup_loop ::
  "(Definitions \<Rightarrow> string \<Rightarrow> error + bool \<times> Definitions) \<Rightarrow>
   Definitions \<Rightarrow> string \<Rightarrow> string list \<Rightarrow> error + string option \<times> Definitions" where
  "lookup_loop have_definition s nm [] = Inr (None, s)"
| "lookup_loop have_definition s nm (ctx # ctxs) =
     (case have_definition s (ctx @ nm) of
        Inl e \<Rightarrow> Inl e
      | Inr (found, s') \<Rightarrow>
          if found then Inr (Some (ctx @ nm), s')
          else lookup_loop have_definition s' nm ctxs)"

definition lookup_name_with ::
  "(Definitions \<Rightarrow> string \<Rightarrow> error + bool \<times> Definitions) \<Rightarrow>
   Definitions \<Rightarrow> string \<Rightarrow> error + string \<times> Definitions" where
  "lookup_name_with have_definition s nm =
     (case lookup_cache s nm of
        Some cached \<Rightarrow> Inr (cached, s)
      | None \<Rightarrow>
          if fully_qualified_symbol_name nm then Inr (nm, s)
          else if CHR ''`'' \<in> set nm then
            (if starts_with_mark nm
             then Inr (current_context s @ dropWhile (\<lambda>c. c = CHR ''`'') nm, s)
             else Inr (nm, s))
          else
            (let with_context = current_context s @ nm in
             case lookup_loop have_definition s nm (context_path s) of
               Inl e \<Rightarrow> Inl e
             | Inr (Some n, s') \<Rightarrow> Inr (n, s')
             | Inr (None, s') \<Rightarrow> Inr (with_context, s')))"

section \<open>Combining the definitions of a symbol\<close>

text \<open>
  The inner loop of the merge, over \<^verbatim>\<open>curr.formatvalues.items()\<close>: a form that the
  combined dictionary has already is extended in place by the rules of the source's list;
  a new form is entered with the source's list object itself.
\<close>

fun merge_formats ::
  "(string \<times> addr) list \<Rightarrow> (addr \<Rightarrow> rule list) \<Rightarrow> (string \<times> addr) list \<Rightarrow>
   (string \<times> addr) list \<times> (addr \<Rightarrow> rule list)" where
  "merge_formats formatvalues' ls [] = (formatvalues', ls)"
| "merge_formats formatvalues' ls ((form, rules) # items) =
     (case map_of formatvalues' form of
        Some target \<Rightarrow> merge_formats formatvalues' (ls(target := ls target @ ls rules)) items
      | None \<Rightarrow> merge_formats (formatvalues' @ [(form, rules)]) ls items)"

text \<open>
  The loop \<^verbatim>\<open>while its: curr = its.pop() ...\<close>: the candidates are taken from the end of
  the list, and each updates the options and the format values.
\<close>

function merge_loop ::
  "(addr \<Rightarrow> Definition) \<Rightarrow> addr list \<Rightarrow> (string \<rightharpoonup> expr) \<Rightarrow> (string \<times> addr) list \<Rightarrow>
   (addr \<Rightarrow> rule list) \<Rightarrow>
   (string \<rightharpoonup> expr) \<times> (string \<times> addr) list \<times> (addr \<Rightarrow> rule list)" where
  "merge_loop h its options' formatvalues' ls =
     (if its = [] then (options', formatvalues', ls)
      else
        (let curr = h (last its);
             fl = merge_formats formatvalues' ls (formatvalues curr)
         in merge_loop h (butlast its) (options' ++ options curr) (fst fl) (snd fl)))"
  by pat_completeness auto
termination
  by (relation "measure (\<lambda>(h, its, options', formatvalues', ls). length its)") auto

declare merge_loop.simps [simp del]

text \<open>\<^verbatim>\<open>sum((c.X for c in candidates), [])\<close>: the lists are added from the left.\<close>

definition sum_values ::
  "(Definition \<Rightarrow> rule list) \<Rightarrow> (addr \<Rightarrow> Definition) \<Rightarrow> addr list \<Rightarrow> rule list" where
  "sum_values field h candidates = foldl (@) [] (map (\<lambda>c. field (h c)) candidates)"

text \<open>
  The branch of \<^verbatim>\<open>get_definition\<close> for more than one candidate.  The list object of the
  bucket \<^verbatim>\<open>""\<close> and the combined \<^verbatim>\<open>Definition\<close> are new objects.
\<close>

definition merge_definitions ::
  "Definitions \<Rightarrow> string \<Rightarrow> addr option \<Rightarrow> addr option \<Rightarrow> addr option \<Rightarrow> addr list \<Rightarrow>
   addr option \<Rightarrow> addr \<times> Definitions" where
  "merge_definitions s nm user_d pymathics_d builtin_d candidates builtin_inst =
     (let h = defn_heap s;
          numeric_attributes =
            (case user_d of
               Some u \<Rightarrow> (is_numeric (h u), attributes (h u))
             | None \<Rightarrow>
                 (case pymathics_d of
                    Some p \<Rightarrow> (is_numeric (h p), attributes (h p))
                  | None \<Rightarrow>
                      (case builtin_d of
                         Some b \<Rightarrow> (is_numeric (h b), attributes (h b))
                       | None \<Rightarrow> (False, A_NO_ATTRIBUTES))));
          empty_bucket = next_addr s;
          merged = merge_loop h candidates Map.empty [([], empty_bucket)]
                     ((list_heap s)(empty_bucket := []));
          definition = empty_bucket + 1;
          d = \<lparr> name = nm,
                ownvalues = sum_values ownvalues h candidates,
                downvalues = sum_values downvalues h candidates,
                subvalues = sum_values subvalues h candidates,
                upvalues = sum_values upvalues h candidates,
                formatvalues = fst (snd merged),
                messages = sum_values messages h candidates,
                attributes = snd numeric_attributes,
                options = fst merged,
                nvalues = sum_values nvalues h candidates,
                defaultvalues = sum_values defaultvalues h candidates,
                builtin_instance = builtin_inst,
                is_numeric = fst numeric_attributes,
                changed = None \<rparr>
      in (definition,
          s\<lparr>defn_heap := h(definition := d), list_heap := snd (snd merged),
            next_addr := definition + 1\<rparr>))"

text \<open>The three assignments that enter a result into the caches.\<close>

definition cache_result :: "Definitions \<Rightarrow> string \<Rightarrow> string \<Rightarrow> addr \<Rightarrow> Definitions" where
  "cache_result s original_name nm definition =
     s\<lparr>proxy := (proxy s)(strip_context original_name :=
                   insert original_name (proxy s (strip_context original_name))),
       definitions_cache := (definitions_cache s)(original_name \<mapsto> definition),
       lookup_cache := (lookup_cache s)(original_name \<mapsto> nm)\<rparr>"

text \<open>\<^verbatim>\<open>candidates = [user] if user else []\<close>, then the two \<^verbatim>\<open>append\<close>s.\<close>

definition candidates_of :: "addr option \<Rightarrow> addr option \<Rightarrow> addr option \<Rightarrow> addr list" where
  "candidates_of user_d pymathics_d builtin_d =
     (case user_d of Some u \<Rightarrow> [u] | None \<Rightarrow> [])
     @ (case pymathics_d of Some p \<Rightarrow> [p] | None \<Rightarrow> [])
     @ (case builtin_d of Some b \<Rightarrow> [b] | None \<Rightarrow> [])"

text \<open>
  \<^verbatim>\<open>get_definition(name, only_if_exists)\<close> over the lookup function.  In the last branch
  \<^verbatim>\<open>name[-1]\<close> raises on the empty string.
\<close>

definition get_definition_with ::
  "(Definitions \<Rightarrow> string \<Rightarrow> error + string \<times> Definitions) \<Rightarrow>
   Definitions \<Rightarrow> string \<Rightarrow> bool \<Rightarrow> error + addr option \<times> Definitions" where
  "get_definition_with lookup s original_name only_if_exists =
     (case definitions_cache s original_name of
        Some definition \<Rightarrow> Inr (Some definition, s)
      | None \<Rightarrow>
          (case lookup s original_name of
             Inl e \<Rightarrow> Inl e
           | Inr (nm, s1) \<Rightarrow>
               (let user_d = user s1 nm;
                    pymathics_d = pymathics s1 nm;
                    builtin_d = builtin s1 nm;
                    candidates = candidates_of user_d pymathics_d builtin_d;
                    builtin_inst = (case pymathics_d of Some p \<Rightarrow> Some p | None \<Rightarrow> builtin_d)
                in
                  if length candidates = 1 then
                    Inr (Some (hd candidates),
                         cache_result s1 original_name nm (hd candidates))
                  else if length candidates > 0 then
                    (let m = merge_definitions s1 nm user_d pymathics_d builtin_d candidates
                               builtin_inst
                     in Inr (Some (fst m), cache_result (snd m) original_name nm (fst m)))
                  else if only_if_exists then Inr (None, s1)
                  else if nm = [] then Inl IndexError
                  else
                    (let definition = next_addr s1;
                         s2 = s1\<lparr>defn_heap := (defn_heap s1)(definition := Definition_init nm),
                                 next_addr := definition + 1\<rparr>
                     in Inr (Some definition,
                             if last nm \<noteq> CHR ''`'' then s2\<lparr>user := (user s2)(nm \<mapsto> definition)\<rparr>
                             else s2)))))"

text \<open>\<^verbatim>\<open>have_definition(name)\<close>: \<^verbatim>\<open>get_definition(name, only_if_exists=True) is not None\<close>.\<close>

definition have_definition_with ::
  "(Definitions \<Rightarrow> string \<Rightarrow> error + string \<times> Definitions) \<Rightarrow>
   Definitions \<Rightarrow> string \<Rightarrow> error + bool \<times> Definitions" where
  "have_definition_with lookup s nm =
     (case get_definition_with lookup s nm True of
        Inl e \<Rightarrow> Inl e
      | Inr (definition, s') \<Rightarrow> Inr (definition \<noteq> None, s'))"

text \<open>
  The recursion, bounded: \<^verbatim>\<open>lookup_name\<close> with a budget of nested calls, and
  \<^verbatim>\<open>RecursionError\<close> when the budget is used up.  A call nests only for a name without a
  context mark that is not in the cache, and then by one level for every context of the
  path that has no mark itself.
\<close>

primrec lookup_name :: "nat \<Rightarrow> Definitions \<Rightarrow> string \<Rightarrow> error + string \<times> Definitions" where
  "lookup_name 0 s nm = Inl RecursionError"
| "lookup_name (Suc fuel) s nm =
     lookup_name_with (have_definition_with (lookup_name fuel)) s nm"

definition get_definition ::
  "nat \<Rightarrow> Definitions \<Rightarrow> string \<Rightarrow> bool \<Rightarrow> error + addr option \<times> Definitions" where
  "get_definition fuel s original_name only_if_exists =
     get_definition_with (lookup_name fuel) s original_name only_if_exists"

definition have_definition :: "nat \<Rightarrow> Definitions \<Rightarrow> string \<Rightarrow> error + bool \<times> Definitions" where
  "have_definition fuel s nm = have_definition_with (lookup_name fuel) s nm"

section \<open>Changing the definitions of the user\<close>

unbundle bit_operations_syntax

text \<open>
  \<^verbatim>\<open>get_user_definition(name, create)\<close>: the user's definition of the name; a new one
  takes the attributes and the numeric flag of the builtin definition and is followed by
  \<^verbatim>\<open>clear_cache(name)\<close>.
\<close>

definition get_user_definition ::
  "Definitions \<Rightarrow> string \<Rightarrow> bool \<Rightarrow> addr option \<times> Definitions" where
  "get_user_definition s nm create =
     (case user s nm of
        Some existing \<Rightarrow> (Some existing, s)
      | None \<Rightarrow>
          if \<not> create then (None, s)
          else
            (let attributes_numeric =
                   (case builtin s nm of
                      Some b \<Rightarrow> (attributes (defn_heap s b), is_numeric (defn_heap s b))
                    | None \<Rightarrow> (A_NO_ATTRIBUTES, False));
                 definition = next_addr s;
                 s1 = s\<lparr>defn_heap := (defn_heap s)(definition :=
                           (Definition_init nm)\<lparr>attributes := fst attributes_numeric,
                                                 is_numeric := snd attributes_numeric\<rparr>),
                         next_addr := definition + 1,
                         user := (user s)(nm \<mapsto> definition)\<rparr>;
                 s2 = clear_cache s1 (Some nm)
             in (user s2 nm, s2)))"

text \<open>\<^verbatim>\<open>mark_changed(definition)\<close>.\<close>

definition mark_changed :: "Definitions \<Rightarrow> addr \<Rightarrow> Definitions" where
  "mark_changed s definition =
     (let t = now s + 1 in
      s\<lparr>now := t,
        defn_heap := (defn_heap s)(definition := (defn_heap s definition)\<lparr>changed := Some t\<rparr>)\<rparr>)"

text \<open>
  The first line of every mutator,
  \<^verbatim>\<open>definition = self.get_user_definition(self.lookup_name(name))\<close>.  With \<^verbatim>\<open>create\<close> at
  its default the result is an object; \<^verbatim>\<open>None\<close> would make the next attribute access
  raise.
\<close>

definition user_definition_of ::
  "nat \<Rightarrow> Definitions \<Rightarrow> string \<Rightarrow> error + addr \<times> Definitions" where
  "user_definition_of fuel s nm =
     (case lookup_name fuel s nm of
        Inl e \<Rightarrow> Inl e
      | Inr (full, s1) \<Rightarrow>
          (case get_user_definition s1 full True of
             (None, s2) \<Rightarrow> Inl AttributeError
           | (Some definition, s2) \<Rightarrow> Inr (definition, s2)))"

text \<open>An assignment to a field of the object at an address.\<close>

definition update_definition ::
  "Definitions \<Rightarrow> addr \<Rightarrow> (Definition \<Rightarrow> Definition) \<Rightarrow> Definitions" where
  "update_definition s definition f =
     s\<lparr>defn_heap := (defn_heap s)(definition := f (defn_heap s definition))\<rparr>"













text \<open>\<^verbatim>\<open>unset(name, expr)\<close>: remove the rule, then mark and clear whatever the result.\<close>

definition unset :: "nat \<Rightarrow> Definitions \<Rightarrow> string \<Rightarrow> expr \<Rightarrow> error + bool \<times> Definitions" where
  "unset fuel s nm expr =
     (case user_definition_of fuel s nm of
        Inl e \<Rightarrow> Inl e
      | Inr (definition, s1) \<Rightarrow>
          (case remove_rule (defn_heap s1 definition) expr of
             Inl e \<Rightarrow> Inl e
           | Inr (result, d') \<Rightarrow>
               (let s2 = update_definition s1 definition (\<lambda>d. d');
                    s3 = mark_changed s2 definition
                in Inr (result, clear_definitions_cache s3 nm))))"

section \<open>Predicates on states\<close>

text \<open>
  Every name that has an entry in the cache of definitions is registered in the bucket of
  its short form: \<^verbatim>\<open>get_definition\<close> enters a name into \<^verbatim>\<open>proxy\<close> whenever it enters it
  into the cache.
\<close>

definition cache_indexed :: "Definitions \<Rightarrow> bool" where
  "cache_indexed s = (\<forall>k. definitions_cache s k \<noteq> None \<longrightarrow> k \<in> proxy s (strip_context k))"

text \<open>Every context of the context path contains the context mark.\<close>

definition wf_contexts :: "Definitions \<Rightarrow> bool" where
  "wf_contexts s = list_all (\<lambda>ctx. CHR ''`'' \<in> set ctx) (context_path s)"

text \<open>
  What a lookup leaves as it is: the namespaces, the clock, the contexts, and every
  \<^verbatim>\<open>Definition\<close> object that exists; objects are only added.
\<close>

definition extends :: "Definitions \<Rightarrow> Definitions \<Rightarrow> bool" where
  "extends s s' =
     (user s' = user s \<and> pymathics s' = pymathics s \<and> builtin s' = builtin s
      \<and> now s' = now s \<and> current_context s' = current_context s
      \<and> context_path s' = context_path s \<and> next_addr s \<le> next_addr s'
      \<and> (\<forall>a. a < next_addr s \<longrightarrow> defn_heap s' a = defn_heap s a))"

text \<open>The rules of a category that an optional source contributes, and its options.\<close>

definition values_of ::
  "(Definition \<Rightarrow> rule list) \<Rightarrow> (addr \<Rightarrow> Definition) \<Rightarrow> addr option \<Rightarrow> rule list" where
  "values_of field h source = (case source of Some a \<Rightarrow> field (h a) | None \<Rightarrow> [])"

definition options_of :: "(addr \<Rightarrow> Definition) \<Rightarrow> addr option \<Rightarrow> (string \<rightharpoonup> expr)" where
  "options_of h source = (case source of Some a \<Rightarrow> options (h a) | None \<Rightarrow> Map.empty)"

text \<open>The two facts about a lookup that the proofs below carry through its recursion.\<close>

definition lookup_step :: "Definitions \<Rightarrow> Definitions \<Rightarrow> bool" where
  "lookup_step s s' = (extends s s' \<and> (cache_indexed s \<longrightarrow> cache_indexed s'))"

text \<open>The source of highest priority among the present ones: user, then plugin, then builtin.\<close>

definition highest_priority :: "addr option \<Rightarrow> addr option \<Rightarrow> addr option \<Rightarrow> addr option" where
  "highest_priority user_d pymathics_d builtin_d =
     (case user_d of
        Some u \<Rightarrow> Some u
      | None \<Rightarrow> (case pymathics_d of Some p \<Rightarrow> Some p | None \<Rightarrow> builtin_d))"


section \<open>Example data\<close>

text \<open>
  The patterns \<^verbatim>\<open>f[x_]\<close>, \<^verbatim>\<open>f[y_]\<close> and \<^verbatim>\<open>f[x_] /; x > 0\<close> for the symbol
  \<^verbatim>\<open>Global`f\<close>, and rules on them of one precedence.
\<close>

definition pattern_f_x :: expr where
  "pattern_f_x = Expression (Symbol ''Global`f'')
     [Expression (Symbol ''System`Pattern'')
        [Symbol ''Global`x'', Expression (Symbol ''System`Blank'') []]]"

definition pattern_f_y :: expr where
  "pattern_f_y = Expression (Symbol ''Global`f'')
     [Expression (Symbol ''System`Pattern'')
        [Symbol ''Global`y'', Expression (Symbol ''System`Blank'') []]]"

definition pattern_f_x_cond :: expr where
  "pattern_f_x_cond = Expression (Symbol ''System`Condition'')
     [pattern_f_x, Expression (Symbol ''System`Greater'') [Symbol ''Global`x'', Integer 0]]"

definition rule_r1 :: rule where
  "rule_r1 = \<lparr> pattern = pattern_f_x, replace = Integer 1, precedence = 0 \<rparr>"

definition rule_r2 :: rule where
  "rule_r2 = \<lparr> pattern = pattern_f_y, replace = Integer 2, precedence = 0 \<rparr>"

definition rule_r3 :: rule where
  "rule_r3 = \<lparr> pattern = pattern_f_x, replace = Integer 3, precedence = 0 \<rparr>"

text \<open>A rule whose left-hand side is the atom \<^verbatim>\<open>1\<close>.\<close>

definition rule_atom :: rule where
  "rule_atom = \<lparr> pattern = Integer 1, replace = Integer 2, precedence = 0 \<rparr>"

section \<open>Example states\<close>

text \<open>
  \<^verbatim>\<open>Definitions()\<close> without builtins: empty namespaces and caches, the current context
  \<^verbatim>\<open>Global`\<close> and the context path \<^verbatim>\<open>System`\<close>, \<^verbatim>\<open>Global`\<close>.
\<close>

definition Definitions_init :: Definitions where
  "Definitions_init =
     \<lparr> builtin = Map.empty, user = Map.empty, pymathics = Map.empty,
       definitions_cache = Map.empty, lookup_cache = Map.empty, proxy = (\<lambda>k. {}),
       now = 0, current_context = ''Global`'', context_path = [''System`'', ''Global`''],
       defn_heap = (\<lambda>a. Definition_init []), list_heap = (\<lambda>a. []), next_addr = 0 \<rparr>"

text \<open>
  A state in which the short name \<^verbatim>\<open>x\<close> exists twice: as the builtin \<^verbatim>\<open>System`x\<close> (object
  0) and as the user's \<^verbatim>\<open>Global`x\<close> (object 1).
\<close>

definition state_two_x :: Definitions where
  "state_two_x =
     Definitions_init
       \<lparr> builtin := [''System`x'' \<mapsto> 0], user := [''Global`x'' \<mapsto> 1],
         defn_heap := (\<lambda>a. if a = 0 then Definition_init ''System`x''
                            else if a = 1 then Definition_init ''Global`x''
                            else Definition_init []),
         next_addr := 2 \<rparr>"

text \<open>A state in which only the user has a definition of \<^verbatim>\<open>Global`f\<close> (object 0).\<close>

definition state_user_f :: Definitions where
  "state_user_f =
     Definitions_init
       \<lparr> user := [''Global`f'' \<mapsto> 0],
         defn_heap := (\<lambda>a. if a = 0 then Definition_init ''Global`f'' else Definition_init []),
         next_addr := 1 \<rparr>"

text \<open>
  A state in which the builtin definition of \<^verbatim>\<open>System`f\<close> (object 0) and the user's
  (object 1) both have format values for the form \<^verbatim>\<open>System`OutputForm\<close>: the list objects
  10, holding \<^verbatim>\<open>rule_r1\<close>, and 11, holding \<^verbatim>\<open>rule_r2\<close>.
\<close>

definition state_format_shared :: Definitions where
  "state_format_shared =
     Definitions_init
       \<lparr> builtin := [''System`f'' \<mapsto> 0], user := [''System`f'' \<mapsto> 1],
         defn_heap :=
           (\<lambda>a. if a = 0 then
                   (Definition_init ''System`f'')\<lparr>formatvalues := [(''System`OutputForm'', 10)]\<rparr>
                 else if a = 1 then
                   (Definition_init ''System`f'')\<lparr>formatvalues := [(''System`OutputForm'', 11)]\<rparr>
                 else Definition_init []),
         list_heap := (\<lambda>a. if a = 10 then [rule_r1] else if a = 11 then [rule_r2] else []),
         next_addr := 12 \<rparr>"

text \<open>
  A state after \<^verbatim>\<open>get_definition("f")\<close> has found the builtin \<^verbatim>\<open>System`f\<close> (object 0): the
  short name is in both caches and in \<^verbatim>\<open>proxy\<close>; the user has no definition.
\<close>

definition state_builtin_f_cached :: Definitions where
  "state_builtin_f_cached =
     Definitions_init
       \<lparr> builtin := [''System`f'' \<mapsto> 0],
         definitions_cache := [''f'' \<mapsto> 0],
         lookup_cache := [''f'' \<mapsto> ''System`f''],
         proxy := (\<lambda>k. if k = ''f'' then {''f''} else {}),
         defn_heap := (\<lambda>a. if a = 0 then (Definition_init ''System`f'')\<lparr>attributes := 4\<rparr>
                            else Definition_init []),
         next_addr := 1 \<rparr>"

text \<open>
  A state in which \<^verbatim>\<open>Global`f\<close> has a builtin definition (object 0) with the down value
  \<^verbatim>\<open>rule_r1\<close> and a definition of the user (object 1) with the down value \<^verbatim>\<open>rule_r2\<close>;
  the two differ in the attributes and in the value of the option \<^verbatim>\<open>System`a\<close>.
\<close>

definition state_merge :: Definitions where
  "state_merge =
     Definitions_init
       \<lparr> builtin := [''Global`f'' \<mapsto> 0], user := [''Global`f'' \<mapsto> 1],
         defn_heap :=
           (\<lambda>a. if a = 0 then
                   (Definition_init ''Global`f'')
                     \<lparr>downvalues := [rule_r1], attributes := 4,
                      options := [''System`a'' \<mapsto> Integer 1]\<rparr>
                 else if a = 1 then
                   (Definition_init ''Global`f'')
                     \<lparr>downvalues := [rule_r2], attributes := 8,
                      options := [''System`a'' \<mapsto> Integer 2]\<rparr>
                 else Definition_init []),
         next_addr := 2 \<rparr>"

text \<open>The same state after \<^verbatim>\<open>get_definition("Global`f")\<close> has cached the merged object 3.\<close>

definition state_merge_cached :: Definitions where
  "state_merge_cached =
     state_merge
       \<lparr> definitions_cache := [''Global`f'' \<mapsto> 3],
         lookup_cache := [''Global`f'' \<mapsto> ''Global`f''],
         proxy := (\<lambda>k. if k = ''f'' then {''Global`f''} else {}),
         next_addr := 4 \<rparr>"


section \<open>The rule classifier: first-match priority\<close>

lemma get_tag_position_cases:
  "get_tag_position p s = Some pos \<Longrightarrow> pos \<in> {''own'', ''down'', ''n'', ''sub'', ''up''}"
proof (induction p s rule: get_tag_position.induct)
  case (1 h es name)
  then show ?case by (auto simp: Let_def split: if_splits list.splits)
qed (auto split: if_splits)

text \<open>
  Claim C2.  For a symbol name \<open>s\<close> (a name is not empty) the classifier decides by the
  first matching case: the bare symbol \<open>s\<close> is an own value; any other atom has no
  category; a compound pattern whose head name is \<open>s\<close> is a down value; otherwise the
  head \<^verbatim>\<open>System`N\<close> with exactly two elements gives an n value; otherwise the head
  \<^verbatim>\<open>System`Condition\<close> with at least one element gives the category of its first
  element; otherwise a lookup name equal to \<open>s\<close> gives a sub value; otherwise an element
  with lookup name \<open>s\<close> gives an up value; otherwise there is no category.  In particular
  \<open>s[args]\<close> is a down value, and so is \<open>s[args] /; c\<close>.
\<close>

theorem get_tag_position_priority:
  assumes "s \<noteq> []"
  shows "get_tag_position (Symbol s) s = Some ''own'' \<and>
    (is_Atom p \<and> p \<noteq> Symbol s \<longrightarrow> get_tag_position p s = None) \<and>
    (get_head_name (Expression h es) = s \<longrightarrow>
       get_tag_position (Expression h es) s = Some ''down'') \<and>
    (get_head_name (Expression h es) \<noteq> s \<and> get_head_name (Expression h es) = ''System`N''
       \<and> length es = 2 \<longrightarrow>
       get_tag_position (Expression h es) s = Some ''n'') \<and>
    (get_head_name (Expression h es) \<noteq> s
       \<and> \<not> (get_head_name (Expression h es) = ''System`N'' \<and> length es = 2)
       \<and> get_head_name (Expression h es) = ''System`Condition'' \<and> length es > 0 \<longrightarrow>
       get_tag_position (Expression h es) s = get_tag_position (hd es) s) \<and>
    (get_head_name (Expression h es) \<noteq> s
       \<and> \<not> (get_head_name (Expression h es) = ''System`N'' \<and> length es = 2)
       \<and> \<not> (get_head_name (Expression h es) = ''System`Condition'' \<and> length es > 0)
       \<and> get_lookup_name (Expression h es) = s \<longrightarrow>
       get_tag_position (Expression h es) s = Some ''sub'') \<and>
    (get_head_name (Expression h es) \<noteq> s
       \<and> \<not> (get_head_name (Expression h es) = ''System`N'' \<and> length es = 2)
       \<and> \<not> (get_head_name (Expression h es) = ''System`Condition'' \<and> length es > 0)
       \<and> get_lookup_name (Expression h es) \<noteq> s
       \<and> (\<exists>element \<in> set es. get_lookup_name element = s) \<longrightarrow>
       get_tag_position (Expression h es) s = Some ''up'') \<and>
    (get_head_name (Expression h es) \<noteq> s
       \<and> \<not> (get_head_name (Expression h es) = ''System`N'' \<and> length es = 2)
       \<and> \<not> (get_head_name (Expression h es) = ''System`Condition'' \<and> length es > 0)
       \<and> get_lookup_name (Expression h es) \<noteq> s
       \<and> \<not> (\<exists>element \<in> set es. get_lookup_name element = s) \<longrightarrow>
       get_tag_position (Expression h es) s = None) \<and>
    get_tag_position (Expression (Symbol s) args) s = Some ''down'' \<and>
    get_tag_position (Expression (Symbol ''System`Condition'') [Expression (Symbol s) args, c]) s
      = Some ''down''"
proof -
  have own: "get_tag_position (Symbol s) s = Some ''own''" by simp
  have atom: "is_Atom p \<and> p \<noteq> Symbol s \<longrightarrow> get_tag_position p s = None"
    using assms by (cases p) auto
  have cond: "get_tag_position (Expression (Symbol ''System`Condition'') [Expression (Symbol s) args, c]) s
      = Some ''down''"
    using assms by (simp add: Let_def)
  have down: "get_tag_position (Expression (Symbol s) args) s = Some ''down''"
    using assms by (simp add: Let_def)
  have hdc: "0 < length es \<longrightarrow> (case es of [] \<Rightarrow> None | e # rest \<Rightarrow> get_tag_position e s) = get_tag_position (hd es) s"
    by (cases es) auto
  have nm: "get_name (Expression h es) \<noteq> s" using assms by simp
  have unf: "get_tag_position (Expression h es) s =
     (if get_head_name (Expression h es) = s then Some ''down''
      else if get_head_name (Expression h es) = ''System`N'' \<and> length es = 2 then Some ''n''
      else if get_head_name (Expression h es) = ''System`Condition'' \<and> length es > 0 then
        get_tag_position (hd es) s
      else if get_lookup_name (Expression h es) = s then Some ''sub''
      else if (\<exists>element \<in> set es. get_lookup_name element = s) then Some ''up''
      else None)"
    using nm hdc by (simp add: Let_def del: get_name.simps get_head_name.simps get_lookup_name.simps)
  show ?thesis
    unfolding unf using own atom cond down
    by (auto simp del: get_name.simps get_head_name.simps get_lookup_name.simps get_tag_position.simps)
qed

theorem get_tag_position_priority_witness:
  "''Global`f'' \<noteq> [] \<and>
   get_tag_position (Symbol ''Global`f'') ''Global`f'' = Some ''own'' \<and>
   get_tag_position pattern_f_x ''Global`f'' = Some ''down'' \<and>
   get_tag_position pattern_f_x_cond ''Global`f'' = Some ''down'' \<and>
   is_Atom (Integer 1) \<and> Integer 1 \<noteq> Symbol ''Global`f'' \<and>
   get_tag_position (Integer 1) ''Global`f'' = None"
  using get_tag_position_priority [of "''Global`f''" "Integer 1" "Symbol ''Global`f''"
      "[Expression (Symbol ''System`Pattern'') [Symbol ''Global`x'', Expression (Symbol ''System`Blank'') []]]"
      "[Expression (Symbol ''System`Pattern'') [Symbol ''Global`x'', Expression (Symbol ''System`Blank'') []]]"
      "Expression (Symbol ''System`Greater'') [Symbol ''Global`x'', Integer 0]"]
  by (simp add: pattern_f_x_def pattern_f_x_cond_def)

section \<open>Ordered rule lists\<close>

lemma sorted_P_iff:
  assumes "sorted (map precedence a)" "i < length a"
  shows "rule_lt (a ! i) x \<longleftrightarrow> i < length (takeWhile (\<lambda>e. rule_lt e x) a)"
proof
  assume "i < length (takeWhile (\<lambda>e. rule_lt e x) a)"
  then show "rule_lt (a ! i) x"
    by (metis nth_mem set_takeWhileD takeWhile_nth)
next
  assume P: "rule_lt (a ! i) x"
  show "i < length (takeWhile (\<lambda>e. rule_lt e x) a)"
  proof (rule ccontr)
    assume "\<not> ?thesis"
    then have k: "length (takeWhile (\<lambda>e. rule_lt e x) a) \<le> i" by simp
    let ?k = "length (takeWhile (\<lambda>e. rule_lt e x) a)"
    from k assms(2) have klt: "?k < length a" by simp
    then have "\<not> rule_lt (a ! ?k) x" by (rule nth_length_takeWhile)
    moreover have "precedence (a ! ?k) \<le> precedence (a ! i)"
      using assms k klt sorted_nth_mono[of "map precedence a" ?k i] by simp
    ultimately show False using P by (simp add: rule_lt_def)
  qed
qed

lemma bisect_left_takeWhile:
  assumes "sorted (map precedence a)"
    and "lo \<le> length (takeWhile (\<lambda>e. rule_lt e x) a)"
    and "length (takeWhile (\<lambda>e. rule_lt e x) a) \<le> hi"
    and "hi \<le> length a"
  shows "bisect_left a x lo hi = length (takeWhile (\<lambda>e. rule_lt e x) a)"
  using assms
proof (induction a x lo hi rule: bisect_left.induct)
  case (1 a x lo hi)
  let ?k = "length (takeWhile (\<lambda>e. rule_lt e x) a)"
  show ?case
  proof (cases "lo < hi")
    case False
    with 1 show ?thesis by (simp add: bisect_left.simps)
  next
    case True
    let ?mid = "(lo + hi) div 2"
    have midlt: "?mid < length a" using True "1.prems" by simp
    show ?thesis
    proof (cases "rule_lt (a ! ?mid) x")
      case lt: True
      then have "?mid < ?k" using sorted_P_iff[OF "1.prems"(1) midlt] by simp
      then have "bisect_left a x (?mid + 1) hi = ?k"
        using "1.IH"(1)[OF True refl lt] "1.prems" by simp
      then show ?thesis using True lt by (subst bisect_left.simps) (simp add: Let_def)
    next
      case ge: False
      then have "?k \<le> ?mid" using sorted_P_iff[OF "1.prems"(1) midlt] by simp
      moreover have "?mid \<le> length a" using midlt by simp
      ultimately have "bisect_left a x lo ?mid = ?k"
        using "1.IH"(2)[OF True refl ge] "1.prems" by simp
      then show ?thesis using True ge by (subst bisect_left.simps) (simp add: Let_def)
    qed
  qed
qed

lemma insort_left_sorted:
  assumes "sorted (map precedence a)"
  shows "insort_left a x = takeWhile (\<lambda>e. rule_lt e x) a @ x # dropWhile (\<lambda>e. rule_lt e x) a"
proof -
  have "bisect_left a x 0 (length a) = length (takeWhile (\<lambda>e. rule_lt e x) a)"
    by (rule bisect_left_takeWhile[OF assms]) (simp_all add: length_takeWhile_le)
  then show ?thesis
    by (simp add: insort_left_def Let_def takeWhile_eq_take[symmetric] dropWhile_eq_drop[symmetric])
qed

lemma delete_same_pattern_filter:
  "distinct (map pattern vs) \<Longrightarrow>
   delete_same_pattern vs p = filter (\<lambda>e. \<not> sameQ (pattern e) p) vs"
proof (induction vs)
  case Nil
  then show ?case by simp
next
  case (Cons e vs)
  show ?case
  proof (cases "sameQ (pattern e) p")
    case True
    have "\<forall>x\<in>set vs. \<not> sameQ (pattern x) p"
      using True Cons.prems by (auto simp: sameQ_def) (metis imageI)
    then have "filter (\<lambda>e. \<not> sameQ (pattern e) p) vs = vs" by simp
    with True show ?thesis by simp
  next
    case False
    with Cons show ?thesis by simp
  qed
qed

lemma sorted_dropWhile_ge:
  assumes "sorted (map precedence a)"
  shows "\<forall>e\<in>set (dropWhile (\<lambda>e. rule_lt e x) a). precedence x \<le> precedence e"
proof (cases "dropWhile (\<lambda>e. rule_lt e x) a")
  case Nil
  show ?thesis unfolding Nil by simp
next
  case (Cons y ys)
  then have ny: "\<not> rule_lt y x" by (metis hd_dropWhile list.sel(1) list.distinct(1))
  have "sorted (map precedence (takeWhile (\<lambda>e. rule_lt e x) a @ dropWhile (\<lambda>e. rule_lt e x) a))"
    using assms by (simp only: takeWhile_dropWhile_id)
  then have "sorted (map precedence (y # ys))"
    unfolding Cons by (simp only: map_append sorted_append)
  then have "\<forall>e\<in>set (y # ys). precedence y \<le> precedence e" by auto
  with ny show ?thesis unfolding Cons by (auto simp: rule_lt_def)
qed

lemma sorted_insort_shape:
  assumes "sorted (map precedence a)"
  shows "sorted (map precedence (takeWhile (\<lambda>e. rule_lt e x) a @ x # dropWhile (\<lambda>e. rule_lt e x) a))"
proof -
  let ?tw = "takeWhile (\<lambda>e. rule_lt e x) a" and ?dw = "dropWhile (\<lambda>e. rule_lt e x) a"
  have tw: "\<forall>e\<in>set ?tw. precedence e < precedence x"
    by (auto dest: set_takeWhileD simp: rule_lt_def)
  have dw: "\<forall>e\<in>set ?dw. precedence x \<le> precedence e"
    by (rule sorted_dropWhile_ge[OF assms])
  have s: "sorted (map precedence (?tw @ ?dw))"
    using assms by (simp only: takeWhile_dropWhile_id)
  then have s1: "sorted (map precedence ?tw)" and s2: "sorted (map precedence ?dw)"
    by (simp_all only: map_append sorted_append)
  have "sorted (map precedence (x # ?dw))" using s2 dw by simp
  moreover have "\<forall>p\<in>set (map precedence ?tw). \<forall>q\<in>set (map precedence (x # ?dw)). p \<le> q"
    using tw dw by fastforce
  ultimately show ?thesis using s1
    by (simp only: map_append sorted_append)
qed

lemma rule_lt_fun: "(\<lambda>e. rule_lt e r) = (\<lambda>e. precedence e < precedence r)"
  by (simp add: rule_lt_def)

lemma insert_rule_shape:
  assumes "sorted (map precedence vs)" and "distinct (map pattern vs)"
  shows "insert_rule vs r =
     takeWhile (\<lambda>e. precedence e < precedence r) (filter (\<lambda>e. \<not> sameQ (pattern e) (pattern r)) vs)
     @ r # dropWhile (\<lambda>e. precedence e < precedence r) (filter (\<lambda>e. \<not> sameQ (pattern e) (pattern r)) vs)"
proof -
  have "sorted (map precedence (filter (\<lambda>e. \<not> sameQ (pattern e) (pattern r)) vs))"
    using assms(1) by (simp add: sorted_map sorted_wrt_filter)
  then show ?thesis
    using assms(2)
    by (simp add: insert_rule_def delete_same_pattern_filter insort_left_sorted rule_lt_fun)
qed

lemma length_delete_same_pattern:
  "length (delete_same_pattern vs p) =
     (if \<exists>e\<in>set vs. sameQ (pattern e) p then length vs - 1 else length vs)"
proof (induction vs)
  case Nil
  then show ?case by simp
next
  case (Cons a vs)
  have pos: "(\<exists>e\<in>set vs. sameQ (pattern e) p) \<Longrightarrow> Suc (length vs - 1) = length vs"
    by (cases vs) auto
  show ?case using Cons pos by auto
qed

lemma length_insort_left: "length (insort_left a x) = length a + 1"
proof -
  have "length (take n a @ x # drop n a) = length a + 1" for n
    by (simp only: append_take_drop_id length_append length_Cons flip: add_Suc_right) simp
  then show ?thesis by (simp add: insort_left_def Let_def)
qed

lemma length_insert_rule:
  "length (insert_rule vs r) =
     (if \<exists>e\<in>set vs. sameQ (pattern e) (pattern r) then length vs else length vs + 1)"
proof -
  have "(\<exists>e\<in>set vs. sameQ (pattern e) (pattern r)) \<Longrightarrow> 0 < length vs" by auto
  then show ?thesis
    by (auto simp: insert_rule_def length_insort_left length_delete_same_pattern)
qed

lemma distinct_insert_shape:
  assumes "distinct (map pattern kept)" and "\<forall>e\<in>set kept. \<not> sameQ (pattern e) (pattern r)"
  shows "distinct (map pattern (takeWhile P kept @ r # dropWhile P kept))"
proof -
  let ?tw = "map pattern (takeWhile P kept)" and ?dw = "map pattern (dropWhile P kept)"
  have "distinct (map pattern (takeWhile P kept @ dropWhile P kept))"
    using assms(1) by (simp only: takeWhile_dropWhile_id)
  then have d: "distinct ?tw" "distinct ?dw" "set ?tw \<inter> set ?dw = {}"
    by (simp_all only: map_append distinct_append)
  have nk: "pattern r \<notin> pattern ` set kept" using assms(2) by (auto simp: sameQ_def)
  have "set (takeWhile P kept) \<subseteq> set kept" by (auto dest: set_takeWhileD)
  then have n1: "pattern r \<notin> set ?tw" using nk by auto
  have "set (dropWhile P kept) \<subseteq> set kept" by (auto dest: set_dropWhileD)
  then have n2: "pattern r \<notin> set ?dw" using nk by auto
  have "distinct (?tw @ pattern r # ?dw)"
    using d n1 n2 by (simp only: distinct_append distinct.simps list.set) blast
  then show ?thesis by (simp only: map_append list.map)
qed

lemma insert_rule_twice:
  assumes "sorted (map precedence vs)" and "distinct (map pattern vs)"
    and "precedence r1 = precedence r2" and "\<not> sameQ (pattern r1) (pattern r2)"
  shows "\<exists>xs ys. insert_rule (insert_rule vs r1) r2 = xs @ r2 # r1 # ys"
proof -
  let ?k1 = "filter (\<lambda>e. \<not> sameQ (pattern e) (pattern r1)) vs"
  let ?P = "\<lambda>e. precedence e < precedence r1"
  let ?Q = "\<lambda>e. \<not> sameQ (pattern e) (pattern r2)"
  let ?L1 = "takeWhile ?P ?k1 @ r1 # dropWhile ?P ?k1"
  have L1: "insert_rule vs r1 = ?L1" by (rule insert_rule_shape[OF assms(1,2)])
  have sk1: "sorted (map precedence ?k1)"
    using assms(1) by (simp add: sorted_map sorted_wrt_filter)
  have dk1: "distinct (map pattern ?k1)" using assms(2) by (simp add: distinct_map_filter)
  have sL1: "sorted (map precedence ?L1)"
    using sorted_insort_shape[OF sk1, of r1] by (simp add: rule_lt_fun)
  have dL1: "distinct (map pattern ?L1)"
    by (rule distinct_insert_shape[OF dk1]) simp
  have shape2: "insert_rule ?L1 r2 =
     takeWhile (\<lambda>e. precedence e < precedence r2) (filter ?Q ?L1)
     @ r2 # dropWhile (\<lambda>e. precedence e < precedence r2) (filter ?Q ?L1)"
    by (rule insert_rule_shape[OF sL1 dL1])
  have f: "filter ?Q ?L1 = filter ?Q (takeWhile ?P ?k1) @ r1 # filter ?Q (dropWhile ?P ?k1)"
    using assms(4) by simp
  have all: "\<forall>e\<in>set (filter ?Q (takeWhile ?P ?k1)). ?P e"
    by (auto dest: set_takeWhileD)
  have "takeWhile ?P (filter ?Q (takeWhile ?P ?k1) @ r1 # filter ?Q (dropWhile ?P ?k1))
      = filter ?Q (takeWhile ?P ?k1) @ takeWhile ?P (r1 # filter ?Q (dropWhile ?P ?k1))"
    by (rule takeWhile_append2) (use all in blast)
  then have tw: "takeWhile ?P (filter ?Q ?L1) = filter ?Q (takeWhile ?P ?k1)"
    unfolding f by simp
  have "dropWhile ?P (filter ?Q (takeWhile ?P ?k1) @ r1 # filter ?Q (dropWhile ?P ?k1))
      = dropWhile ?P (r1 # filter ?Q (dropWhile ?P ?k1))"
    by (rule dropWhile_append2) (use all in blast)
  then have dw: "dropWhile ?P (filter ?Q ?L1) = r1 # filter ?Q (dropWhile ?P ?k1)"
    unfolding f by simp
  have "insert_rule (insert_rule vs r1) r2 =
      filter ?Q (takeWhile ?P ?k1) @ r2 # r1 # filter ?Q (dropWhile ?P ?k1)"
    unfolding L1 shape2 using tw dw assms(3) by simp
  then show ?thesis by blast
qed

lemma insert_rule_two_fresh:
  assumes "precedence r1 = precedence r2" and "\<not> sameQ (pattern r1) (pattern r2)"
  shows "insert_rule (insert_rule [] r1) r2 = [r2, r1]"
proof -
  have one: "insert_rule [] r1 = [r1]"
    using insert_rule_shape[of "[]" r1] by simp
  have "insert_rule [r1] r2 = [r2, r1]"
    using insert_rule_shape[of "[r1]" r2] assms by simp
  with one show ?thesis by simp
qed

text \<open>
  Claim C3.  On a rule list that is sorted by precedence and holds no two rules with the
  same pattern, \<^verbatim>\<open>insert_rule\<close> drops the rule with the new rule's pattern and puts the
  new rule after the rules of strictly smaller precedence and before every rule of equal
  or greater precedence: the leftmost position among its peers, and the position a fresh
  insert into the list without the old rule gives.  The length is unchanged when a rule
  with that pattern was present and grows by one otherwise; the result is again sorted
  and without duplicate patterns.  Two rules of equal precedence and different patterns,
  inserted in the order \<open>r1\<close>, \<open>r2\<close>, end as \<open>[r2, r1]\<close> from the empty list, and with
  \<open>r2\<close> directly before \<open>r1\<close> in general.
\<close>

theorem insert_rule_contract:
  assumes "sorted (map precedence values)" and "distinct (map pattern values)"
  shows "(let kept = filter (\<lambda>e. \<not> sameQ (pattern e) (pattern r)) values;
            before = takeWhile (\<lambda>e. precedence e < precedence r) kept;
            after = dropWhile (\<lambda>e. precedence e < precedence r) kept
        in insert_rule values r = before @ r # after
         \<and> (\<forall>e\<in>set before. precedence e < precedence r)
         \<and> (\<forall>e\<in>set after. precedence r \<le> precedence e)
         \<and> insert_rule values r = insert_rule kept r)
     \<and> length (insert_rule values r) =
         (if \<exists>e\<in>set values. sameQ (pattern e) (pattern r) then length values
          else length values + 1)
     \<and> sorted (map precedence (insert_rule values r))
     \<and> distinct (map pattern (insert_rule values r))
     \<and> (precedence r1 = precedence r2 \<and> \<not> sameQ (pattern r1) (pattern r2) \<longrightarrow>
          insert_rule (insert_rule [] r1) r2 = [r2, r1]
          \<and> (\<exists>xs ys. insert_rule (insert_rule values r1) r2 = xs @ r2 # r1 # ys))"
proof -
  let ?kept = "filter (\<lambda>e. \<not> sameQ (pattern e) (pattern r)) values"
  let ?P = "\<lambda>e. precedence e < precedence r"
  have shape: "insert_rule values r = takeWhile ?P ?kept @ r # dropWhile ?P ?kept"
    by (rule insert_rule_shape[OF assms])
  have sk: "sorted (map precedence ?kept)"
    using assms(1) by (simp add: sorted_map sorted_wrt_filter)
  have dk: "distinct (map pattern ?kept)" using assms(2) by (simp add: distinct_map_filter)
  have before: "\<forall>e\<in>set (takeWhile ?P ?kept). precedence e < precedence r"
    by (auto dest: set_takeWhileD)
  have after: "\<forall>e\<in>set (dropWhile ?P ?kept). precedence r \<le> precedence e"
    using sorted_dropWhile_ge[OF sk, of r] by (simp add: rule_lt_fun)
  have "filter (\<lambda>e. \<not> sameQ (pattern e) (pattern r)) ?kept = ?kept" by simp
  then have fresh: "insert_rule values r = insert_rule ?kept r"
    unfolding shape using insert_rule_shape[OF sk dk, of r] by simp
  have len: "length (insert_rule values r) =
         (if \<exists>e\<in>set values. sameQ (pattern e) (pattern r) then length values
          else length values + 1)"
    by (rule length_insert_rule)
  have srt: "sorted (map precedence (insert_rule values r))"
    unfolding shape using sorted_insort_shape[OF sk, of r] by (simp add: rule_lt_fun)
  have dst: "distinct (map pattern (insert_rule values r))"
    unfolding shape by (rule distinct_insert_shape[OF dk]) simp
  have two: "precedence r1 = precedence r2 \<and> \<not> sameQ (pattern r1) (pattern r2) \<longrightarrow>
          insert_rule (insert_rule [] r1) r2 = [r2, r1]
          \<and> (\<exists>xs ys. insert_rule (insert_rule values r1) r2 = xs @ r2 # r1 # ys)"
    using insert_rule_two_fresh[of r1 r2] insert_rule_twice[OF assms, of r1 r2] by blast
  show ?thesis
    unfolding Let_def by (intro conjI shape before after fresh len srt dst two)
qed

theorem insert_rule_contract_witness:
  "sorted (map precedence [rule_r1]) \<and> distinct (map pattern [rule_r1]) \<and>
   precedence rule_r1 = precedence rule_r2 \<and> \<not> sameQ (pattern rule_r1) (pattern rule_r2) \<and>
   insert_rule (insert_rule [] rule_r1) rule_r2 = [rule_r2, rule_r1] \<and>
   sameQ (pattern rule_r1) (pattern rule_r3) \<and>
   length (insert_rule [rule_r1] rule_r3) = length [rule_r1]"
proof -
  have h: "sorted (map precedence [rule_r1])" "distinct (map pattern [rule_r1])" by simp_all
  have p: "\<not> sameQ (pattern rule_r1) (pattern rule_r2)" "sameQ (pattern rule_r1) (pattern rule_r3)"
    "precedence rule_r1 = precedence rule_r2"
    by (simp_all add: rule_r1_def rule_r2_def rule_r3_def sameQ_def pattern_f_x_def pattern_f_y_def)
  note t = insert_rule_contract[OF h, of rule_r3 rule_r1 rule_r2]
  have a: "insert_rule (insert_rule [] rule_r1) rule_r2 = [rule_r2, rule_r1]"
    using t[THEN conjunct2, THEN conjunct2, THEN conjunct2, THEN conjunct2] p(1,3) by blast
  have b: "length (insert_rule [rule_r1] rule_r3) = length [rule_r1]"
    using t[THEN conjunct2, THEN conjunct1] p(2) by simp
  show ?thesis by (intro conjI h p a b)
qed

section \<open>Adding and removing a rule of a definition\<close>

lemma get_values_list_tag:
  "pos \<in> {''own'', ''down'', ''n'', ''sub'', ''up''} \<Longrightarrow> \<exists>vs. get_values_list d pos = Inr vs"
  by (auto simp: get_values_list_def isalpha_def)

lemma remove_first_None: "(\<forall>e\<in>set vs. \<not> sameQ (pattern e) lhs) \<Longrightarrow> remove_first vs lhs = None"
  by (induction vs) auto

lemma remove_rule_not_found:
  "(get_tag_position lhs (name d) = None \<longrightarrow> remove_rule d lhs = Inr (False, d)) \<and>
   (\<forall>pos. get_tag_position lhs (name d) = Some pos \<longrightarrow>
      (\<exists>values. get_values_list d pos = Inr values \<and>
         ((\<forall>e\<in>set values. \<not> sameQ (pattern e) lhs) \<longrightarrow> remove_rule d lhs = Inr (False, d))))"
proof -
  have b: "get_tag_position lhs (name d) = None \<longrightarrow> remove_rule d lhs = Inr (False, d)"
    by (simp add: remove_rule_def)
  have c: "\<exists>values. get_values_list d pos = Inr values \<and>
         ((\<forall>e\<in>set values. \<not> sameQ (pattern e) lhs) \<longrightarrow> remove_rule d lhs = Inr (False, d))"
    if tag: "get_tag_position lhs (name d) = Some pos" for pos
  proof -
    from get_tag_position_cases[OF tag] have mem: "pos \<in> {''own'', ''down'', ''n'', ''sub'', ''up''}" .
    then obtain vs where vs: "get_values_list d pos = Inr vs"
      using get_values_list_tag by blast
    have "remove_rule d lhs = Inr (False, d)" if "\<forall>e\<in>set vs. \<not> sameQ (pattern e) lhs"
      using tag vs remove_first_None[OF that] by (simp add: remove_rule_def)
    with vs show ?thesis by blast
  qed
  show ?thesis using b c by blast
qed





text \<open>
  Claim C9.  The left-hand side \<^verbatim>\<open>1\<close> of \<^verbatim>\<open>rule_atom\<close> has no category for the symbol
  \<^verbatim>\<open>Global`f\<close>: the classifier returns \<^verbatim>\<open>None\<close> on the expression, and
  \<^verbatim>\<open>remove_rule\<close>, which classifies the expression, returns \<^verbatim>\<open>False\<close>.
  \<^verbatim>\<open>Definition.add_rule\<close> classifies the rule's pattern object, which is no \<^verbatim>\<open>Atom\<close>: on
  this rule it raises \<^verbatim>\<open>AttributeError\<close>, and for the definition of \<^verbatim>\<open>System`Integer\<close> it
  files the rule as a down value and returns \<^verbatim>\<open>True\<close>.
\<close>

theorem add_rule_raises_on_atomic_pattern:
  "pattern rule_atom = Integer 1 \<and>
   get_tag_position (Integer 1) ''Global`f'' = None \<and>
   add_rule (Definition_init ''Global`f'') rule_atom = Inl AttributeError \<and>
   add_rule (Definition_init ''System`Integer'') rule_atom
     = Inr (True, (Definition_init ''System`Integer'')\<lparr>downvalues := [rule_atom]\<rparr>) \<and>
   remove_rule (Definition_init ''Global`f'') (Integer 1)
     = Inr (False, Definition_init ''Global`f'')"
  by (simp add: rule_atom_def add_rule_def add_rule_at_def remove_rule_def Definition_init_def
      get_values_list_def put_values_list_def isalpha_def insert_rule_def insort_left_def
      bisect_left.simps Let_def)

section \<open>What a lookup leaves unchanged\<close>

lemma lookup_step_refl: "lookup_step s s"
  by (simp add: lookup_step_def extends_def)

lemma lookup_step_trans: "lookup_step a b \<Longrightarrow> lookup_step b c \<Longrightarrow> lookup_step a c"
  by (auto simp: lookup_step_def extends_def)

lemma lookup_step_cache_result: "lookup_step s (cache_result s a b c)"
  by (auto simp: lookup_step_def extends_def cache_indexed_def cache_result_def)

lemma lookup_step_merge: "lookup_step s (snd (merge_definitions s nm u p b cs bi))"
  by (simp add: lookup_step_def extends_def cache_indexed_def merge_definitions_def Let_def)

lemma get_definition_with_step:
  assumes lk: "\<forall>s nm q s'. lookup s nm = Inr (q, s') \<longrightarrow> lookup_step s s'"
    and run: "get_definition_with lookup s nm True = Inr (r, s')"
  shows "lookup_step s s'"
proof (cases "definitions_cache s nm")
  case (Some d)
  with run have "s' = s" by (simp add: get_definition_with_def)
  then show ?thesis by (simp add: lookup_step_refl)
next
  case None
  with run obtain q s1 where l: "lookup s nm = Inr (q, s1)"
    by (auto simp: get_definition_with_def split: sum.splits)
  have r1: "lookup_step s s1" using lk l by blast
  let ?cs = "candidates_of (user s1 q) (pymathics s1 q) (builtin s1 q)"
  consider (one) "length ?cs = 1" | (many) "length ?cs \<noteq> 1" "length ?cs > 0" | (none) "length ?cs = 0"
    by linarith
  then show ?thesis
  proof cases
    case one
    with run None l have "s' = cache_result s1 nm q (hd ?cs)"
      by (simp add: get_definition_with_def Let_def)
    then show ?thesis using r1 lookup_step_cache_result lookup_step_trans by blast
  next
    case many
    with run None l obtain u p b cs bi where
      eq: "s' = cache_result (snd (merge_definitions s1 q u p b cs bi)) nm q (fst (merge_definitions s1 q u p b cs bi))"
      by (auto simp: get_definition_with_def Let_def)
    have a: "lookup_step s1 (snd (merge_definitions s1 q u p b cs bi))"
      by (rule lookup_step_merge)
    have b: "lookup_step (snd (merge_definitions s1 q u p b cs bi)) s'"
      unfolding eq by (rule lookup_step_cache_result)
    show ?thesis by (rule lookup_step_trans[OF r1 lookup_step_trans[OF a b]])
  next
    case none
    with run None l have "s' = s1"
      by (simp add: get_definition_with_def Let_def)
    then show ?thesis using r1 by simp
  qed
qed

lemma have_definition_with_step:
  assumes lk: "\<forall>s nm q s'. lookup s nm = Inr (q, s') \<longrightarrow> lookup_step s s'"
    and run: "have_definition_with lookup s nm = Inr (r, s')"
  shows "lookup_step s s'"
proof -
  from run obtain d where "get_definition_with lookup s nm True = Inr (d, s')"
    by (auto simp: have_definition_with_def split: sum.splits)
  with lk show ?thesis by (rule get_definition_with_step)
qed

lemma lookup_loop_step:
  assumes hd: "\<forall>s nm r s'. have_def s nm = Inr (r, s') \<longrightarrow> lookup_step s s'"
  shows "lookup_loop have_def s nm ctxs = Inr (r, s') \<Longrightarrow> lookup_step s s'"
proof (induction ctxs arbitrary: s)
  case Nil
  then show ?case by (simp add: lookup_step_refl)
next
  case (Cons ctx ctxs)
  from Cons.prems obtain found s1 where h: "have_def s (ctx @ nm) = Inr (found, s1)"
    by (auto split: sum.splits)
  have r1: "lookup_step s s1" using hd h by blast
  show ?case
  proof (cases found)
    case True
    with Cons.prems h have "s' = s1" by simp
    with r1 show ?thesis by simp
  next
    case False
    with Cons.prems h have "lookup_loop have_def s1 nm ctxs = Inr (r, s')" by simp
    from Cons.IH[OF this] r1 show ?thesis using lookup_step_trans by blast
  qed
qed

lemma lookup_name_with_step:
  assumes hd: "\<forall>s nm r s'. have_def s nm = Inr (r, s') \<longrightarrow> lookup_step s s'"
    and run: "lookup_name_with have_def s nm = Inr (q, s')"
  shows "lookup_step s s'"
proof -
  have "s' = s \<or> (\<exists>r. lookup_loop have_def s nm (context_path s) = Inr (r, s'))"
    using run
    by (auto simp: lookup_name_with_def Let_def split: option.splits if_splits sum.splits)
  then show ?thesis using lookup_step_refl lookup_loop_step[OF hd] by blast
qed

lemma lookup_name_step: "lookup_name fuel s nm = Inr (q, s') \<Longrightarrow> lookup_step s s'"
proof (induction fuel arbitrary: s nm q s')
  case 0
  then show ?case by simp
next
  case (Suc fuel)
  have lk: "\<forall>s nm q s'. lookup_name fuel s nm = Inr (q, s') \<longrightarrow> lookup_step s s'"
    using Suc.IH by blast
  have hd: "\<forall>s nm r s'. have_definition_with (lookup_name fuel) s nm = Inr (r, s') \<longrightarrow> lookup_step s s'"
    using have_definition_with_step[OF lk] by blast
  from Suc.prems have "lookup_name_with (have_definition_with (lookup_name fuel)) s nm = Inr (q, s')"
    by simp
  with hd show ?case by (rule lookup_name_with_step)
qed

lemma lookup_name_extends: "lookup_name fuel s nm = Inr (q, s') \<Longrightarrow> extends s s'"
  using lookup_name_step by (auto simp: lookup_step_def)

lemma lookup_name_cache_indexed:
  "lookup_name fuel s nm = Inr (q, s') \<Longrightarrow> cache_indexed s \<Longrightarrow> cache_indexed s'"
  using lookup_name_step by (auto simp: lookup_step_def)

section \<open>A lookup returns\<close>

text \<open>
  With a context path whose contexts all contain the context mark, a budget of two nested
  calls is enough for every lookup.
\<close>

lemma lookup_name_marked:
  "CHR ''`'' \<in> set n \<Longrightarrow> \<exists>q. lookup_name (Suc k) s n = Inr (q, s)"
  by (simp add: lookup_name_with_def split: option.splits)

lemma get_definition_with_exists_total:
  "lookup s n = Inr (q, s1) \<Longrightarrow> \<exists>r s'. get_definition_with lookup s n True = Inr (r, s')"
  by (simp add: get_definition_with_def Let_def split: option.splits)

lemma have_definition_marked_total:
  assumes "CHR ''`'' \<in> set n"
  shows "\<exists>r s'. have_definition_with (lookup_name (Suc k)) s n = Inr (r, s')"
proof -
  from lookup_name_marked[OF assms] obtain q where "lookup_name (Suc k) s n = Inr (q, s)" by blast
  from get_definition_with_exists_total[of "lookup_name (Suc k)" s n q s, OF this] obtain r s'
    where "get_definition_with (lookup_name (Suc k)) s n True = Inr (r, s')" by blast
  then show ?thesis by (simp add: have_definition_with_def)
qed

lemma lookup_loop_total:
  "list_all (\<lambda>ctx. CHR ''`'' \<in> set ctx) ctxs \<Longrightarrow>
   \<exists>r s'. lookup_loop (have_definition_with (lookup_name (Suc k))) s nm ctxs = Inr (r, s')"
proof (induction ctxs arbitrary: s)
  case Nil
  then show ?case by simp
next
  case (Cons ctx ctxs)
  from Cons.prems have "CHR ''`'' \<in> set (ctx @ nm)" by simp
  from have_definition_marked_total[OF this] obtain r s1
    where h: "have_definition_with (lookup_name (Suc k)) s (ctx @ nm) = Inr (r, s1)" by blast
  from Cons.prems have "list_all (\<lambda>ctx. CHR ''`'' \<in> set ctx) ctxs" by simp
  from Cons.IH[OF this, of s1] obtain r' s'
    where l: "lookup_loop (have_definition_with (lookup_name (Suc k))) s1 nm ctxs = Inr (r', s')"
    by blast
  show ?case
  proof (cases r)
    case True
    with h show ?thesis by (simp del: lookup_name.simps)
  next
    case False
    with h l show ?thesis by (simp del: lookup_name.simps)
  qed
qed

lemma lookup_name_total:
  assumes "wf_contexts s"
  shows "\<exists>q s'. lookup_name (Suc (Suc k)) s nm = Inr (q, s')"
proof -
  from assms obtain r s' where
    "lookup_loop (have_definition_with (lookup_name (Suc k))) s nm (context_path s) = Inr (r, s')"
    unfolding wf_contexts_def using lookup_loop_total by blast
  then show ?thesis
    by (cases r) (auto simp: lookup_name_with_def Let_def split: option.splits)
qed

lemma lookup_name_total_ge:
  assumes "wf_contexts s" and "2 \<le> fuel"
  shows "\<exists>q s'. lookup_name fuel s nm = Inr (q, s')"
proof -
  from assms(2) obtain k where "fuel = Suc (Suc k)"
    by (metis Suc_le_D numeral_2_eq_2 Suc_le_mono)
  with lookup_name_total[OF assms(1)] show ?thesis by simp
qed

section \<open>Evaluating the lookups and the merge on example states\<close>

lemmas eval_defs =
  lookup_name_with_def have_definition_with_def get_definition_with_def get_definition_def
  Definitions_init_def fully_qualified_symbol_name_def starts_with_mark_def
  candidates_of_def cache_result_def Let_def strip_context_def clear_cache_def
  clear_definitions_cache_def merge_definitions_def merge_loop.simps sum_values_def
  Definition_init_def A_NO_ATTRIBUTES_def get_user_definition_def user_definition_of_def
  mark_changed_def update_definition_def

text \<open>
  Claim C4.  In the state \<^verbatim>\<open>state_two_x\<close> the current context is \<^verbatim>\<open>Global`\<close>, the context
  path is \<^verbatim>\<open>System`\<close>, \<^verbatim>\<open>Global`\<close>, and both \<^verbatim>\<open>Global`x\<close> and \<^verbatim>\<open>System`x\<close> exist.
  \<^verbatim>\<open>lookup_name("x")\<close> returns \<^verbatim>\<open>System`x\<close>: the loop walks the context path only, and the
  symbol of the current context does not come first.
\<close>

theorem lookup_name_context_path_first:
  "current_context state_two_x = ''Global`'' \<and>
   context_path state_two_x = [''System`'', ''Global`''] \<and>
   user state_two_x ''Global`x'' = Some 1 \<and> builtin state_two_x ''System`x'' = Some 0 \<and>
   map_sum id fst (lookup_name (Suc (Suc fuel)) state_two_x ''x'') = Inr ''System`x''"
  by (simp add: eval_defs state_two_x_def)

text \<open>
  Claim C7.  In the state \<^verbatim>\<open>state_format_shared\<close> the builtin and the user's definition of
  \<^verbatim>\<open>System`f\<close> both have format values for one form.  \<^verbatim>\<open>get_definition\<close> enters the
  builtin's list object into the combined dictionary and then extends it in place by the
  user's rules: after the call the list of the builtin definition, which held
  \<^verbatim>\<open>rule_r1\<close>, holds \<^verbatim>\<open>rule_r1\<close> and \<^verbatim>\<open>rule_r2\<close>.
\<close>

theorem get_definition_extends_builtin_formats:
  "(case get_definition (Suc fuel) state_format_shared ''System`f'' False of
      Inl e \<Rightarrow> False
    | Inr (d, s') \<Rightarrow>
        builtin s' ''System`f'' = Some 0 \<and>
        formatvalues (defn_heap s' 0) = [(''System`OutputForm'', 10)] \<and>
        list_heap state_format_shared 10 = [rule_r1] \<and>
        list_heap s' 10 = [rule_r1, rule_r2])"
  by (simp add: eval_defs state_format_shared_def)

text \<open>
  Claim C8.  From \<^verbatim>\<open>state_user_f\<close>, \<^verbatim>\<open>get_definition("f")\<close> caches the resolution of
  \<^verbatim>\<open>f\<close> to \<^verbatim>\<open>Global`f\<close>.  \<^verbatim>\<open>get_definition("System`f")\<close> then creates the symbol
  \<^verbatim>\<open>System`f\<close> in the user's namespace and clears nothing: \<^verbatim>\<open>lookup_name("f")\<close> still
  answers \<^verbatim>\<open>Global`f\<close> from the cache, while the same call on the emptied caches answers
  \<^verbatim>\<open>System`f\<close>.
\<close>

theorem auto_vivified_symbol_keeps_stale_lookup:
  "(case get_definition (Suc (Suc fuel)) state_user_f ''f'' False of
      Inl e \<Rightarrow> False
    | Inr (d1, s1) \<Rightarrow>
        lookup_cache s1 ''f'' = Some ''Global`f'' \<and>
        (case get_definition (Suc (Suc fuel)) s1 ''System`f'' False of
           Inl e \<Rightarrow> False
         | Inr (d2, s2) \<Rightarrow>
             user s1 ''System`f'' = None \<and> user s2 ''System`f'' = d2 \<and> d2 = Some 1 \<and>
             map_sum id fst (lookup_name (Suc (Suc fuel)) s2 ''f'') = Inr ''Global`f'' \<and>
             map_sum id fst (lookup_name (Suc (Suc fuel)) (clear_cache s2 None) ''f'')
               = Inr ''System`f''))"
  by (simp add: eval_defs state_user_f_def)

section \<open>The merge of the definitions of a symbol\<close>

lemma foldl_append_concat: "foldl (@) a xs = a @ concat xs"
  by (induction xs arbitrary: a) auto

lemma sum_values_candidates:
  "sum_values field h (candidates_of u p b) = values_of field h u @ values_of field h p @ values_of field h b"
  by (simp add: sum_values_def foldl_append_concat candidates_of_def values_of_def split: option.splits)

lemma merge_loop_options:
  "fst (merge_loop h its opts fvs ls) = foldl (++) opts (map (\<lambda>c. options (h c)) (rev its))"
proof (induction h its opts fvs ls rule: merge_loop.induct)
  case (1 h its opts fvs ls)
  show ?case
  proof (cases "its = []")
    case True
    then show ?thesis by (simp add: merge_loop.simps)
  next
    case False
    then have r: "rev its = last its # rev (butlast its)"
      by (metis append_butlast_last_id rev.simps(2) rev_append rev_rev_ident append_Nil rev_singleton_conv)
    show ?thesis
      using False "1.IH"[OF False refl refl]
      by (subst merge_loop.simps) (simp add: Let_def r)
  qed
qed

lemma options_candidates:
  "foldl (++) Map.empty (map (\<lambda>c. options (h c)) (rev (candidates_of u p b)))
     = options_of h b ++ options_of h p ++ options_of h u"
  by (simp add: candidates_of_def options_of_def split: option.splits)

lemma values_of_cong:
  "(\<forall>a. src = Some a \<longrightarrow> h' a = h a) \<Longrightarrow> values_of field h' src = values_of field h src"
  by (simp add: values_of_def split: option.splits)

lemma options_of_cong:
  "(\<forall>a. src = Some a \<longrightarrow> h' a = h a) \<Longrightarrow> options_of h' src = options_of h src"
  by (simp add: options_of_def split: option.splits)

lemma candidates_mem:
  "c \<in> set (candidates_of u p b) \<longleftrightarrow> (u = Some c \<or> p = Some c \<or> b = Some c)"
  by (auto simp: candidates_of_def split: option.splits)

lemma highest_priority_Some:
  "0 < length (candidates_of u p b) \<Longrightarrow>
   \<exists>src. highest_priority u p b = Some src \<and> src \<in> set (candidates_of u p b)"
  by (auto simp: candidates_of_def highest_priority_def split: option.splits)

text \<open>The merge branch, for a state in which the lookup has been done.\<close>

lemma merge_definitions_fields:
  assumes "merge_definitions s nm u p b (candidates_of u p b) bi = (a, s')"
    and "highest_priority u p b = Some src"
  shows "a = next_addr s + 1 \<and> next_addr s' = next_addr s + 2
    \<and> name (defn_heap s' a) = nm
    \<and> ownvalues (defn_heap s' a) = values_of ownvalues (defn_heap s) u @ values_of ownvalues (defn_heap s) p @ values_of ownvalues (defn_heap s) b
    \<and> downvalues (defn_heap s' a) = values_of downvalues (defn_heap s) u @ values_of downvalues (defn_heap s) p @ values_of downvalues (defn_heap s) b
    \<and> subvalues (defn_heap s' a) = values_of subvalues (defn_heap s) u @ values_of subvalues (defn_heap s) p @ values_of subvalues (defn_heap s) b
    \<and> upvalues (defn_heap s' a) = values_of upvalues (defn_heap s) u @ values_of upvalues (defn_heap s) p @ values_of upvalues (defn_heap s) b
    \<and> nvalues (defn_heap s' a) = values_of nvalues (defn_heap s) u @ values_of nvalues (defn_heap s) p @ values_of nvalues (defn_heap s) b
    \<and> defaultvalues (defn_heap s' a) = values_of defaultvalues (defn_heap s) u @ values_of defaultvalues (defn_heap s) p @ values_of defaultvalues (defn_heap s) b
    \<and> messages (defn_heap s' a) = values_of messages (defn_heap s) u @ values_of messages (defn_heap s) p @ values_of messages (defn_heap s) b
    \<and> attributes (defn_heap s' a) = attributes (defn_heap s src)
    \<and> is_numeric (defn_heap s' a) = is_numeric (defn_heap s src)
    \<and> options (defn_heap s' a) = options_of (defn_heap s) b ++ options_of (defn_heap s) p ++ options_of (defn_heap s) u"
proof -
  from assms(1) have a: "a = next_addr s + 1"
    by (auto simp: merge_definitions_def Let_def)
  from assms(1) have s': "s' = snd (merge_definitions s nm u p b (candidates_of u p b) bi)"
    by (metis snd_conv)
  have na: "next_addr s' = next_addr s + 2"
    unfolding s' by (simp add: merge_definitions_def Let_def)
  have d: "defn_heap s' a = \<lparr> name = nm,
                ownvalues = sum_values ownvalues (defn_heap s) (candidates_of u p b),
                downvalues = sum_values downvalues (defn_heap s) (candidates_of u p b),
                subvalues = sum_values subvalues (defn_heap s) (candidates_of u p b),
                upvalues = sum_values upvalues (defn_heap s) (candidates_of u p b),
                formatvalues = fst (snd (merge_loop (defn_heap s) (candidates_of u p b) Map.empty [([], next_addr s)]
                     ((list_heap s)(next_addr s := [])))),
                messages = sum_values messages (defn_heap s) (candidates_of u p b),
                attributes = attributes (defn_heap s src),
                options = fst (merge_loop (defn_heap s) (candidates_of u p b) Map.empty [([], next_addr s)]
                     ((list_heap s)(next_addr s := []))),
                nvalues = sum_values nvalues (defn_heap s) (candidates_of u p b),
                defaultvalues = sum_values defaultvalues (defn_heap s) (candidates_of u p b),
                builtin_instance = bi,
                is_numeric = is_numeric (defn_heap s src),
                changed = None \<rparr>"
    unfolding s' a using assms(2)
    by (auto simp: merge_definitions_def Let_def highest_priority_def split: option.splits)
  show ?thesis
    unfolding d by (simp add: a na sum_values_candidates merge_loop_options options_candidates)
qed

lemma get_definition_with_merge:
  assumes "definitions_cache s original_name = None"
    and "lookup s original_name = Inr (nm, s1)"
    and "2 \<le> length (candidates_of (user s1 nm) (pymathics s1 nm) (builtin s1 nm))"
  shows "get_definition_with lookup s original_name only_if_exists =
     Inr (Some (fst (merge_definitions s1 nm (user s1 nm) (pymathics s1 nm) (builtin s1 nm)
                       (candidates_of (user s1 nm) (pymathics s1 nm) (builtin s1 nm))
                       (case pymathics s1 nm of Some p \<Rightarrow> Some p | None \<Rightarrow> builtin s1 nm))),
          cache_result
            (snd (merge_definitions s1 nm (user s1 nm) (pymathics s1 nm) (builtin s1 nm)
                       (candidates_of (user s1 nm) (pymathics s1 nm) (builtin s1 nm))
                       (case pymathics s1 nm of Some p \<Rightarrow> Some p | None \<Rightarrow> builtin s1 nm)))
            original_name nm
            (fst (merge_definitions s1 nm (user s1 nm) (pymathics s1 nm) (builtin s1 nm)
                       (candidates_of (user s1 nm) (pymathics s1 nm) (builtin s1 nm))
                       (case pymathics s1 nm of Some p \<Rightarrow> Some p | None \<Rightarrow> builtin s1 nm))))"
proof -
  have "length (candidates_of (user s1 nm) (pymathics s1 nm) (builtin s1 nm)) \<noteq> 1"
    "0 < length (candidates_of (user s1 nm) (pymathics s1 nm) (builtin s1 nm))"
    using assms(3) by auto
  then show ?thesis
    using assms(1,2) by (simp add: get_definition_with_def Let_def)
qed

lemma get_definition_merge_result:
  assumes miss: "definitions_cache s original_name = None"
    and lk: "lookup_name fuel s original_name = Inr (nm, s1)"
    and two: "2 \<le> length (candidates_of (user s nm) (pymathics s nm) (builtin s nm))"
    and alloc: "\<forall>c\<in>set (candidates_of (user s nm) (pymathics s nm) (builtin s nm)). c < next_addr s"
  shows "\<exists>definition s' src.
       get_definition fuel s original_name only_if_exists = Inr (Some definition, s')
     \<and> next_addr s \<le> definition \<and> definition < next_addr s'
     \<and> definitions_cache s' original_name = Some definition
     \<and> name (defn_heap s' definition) = nm
     \<and> ownvalues (defn_heap s' definition) = values_of ownvalues (defn_heap s) (user s nm) @ values_of ownvalues (defn_heap s) (pymathics s nm) @ values_of ownvalues (defn_heap s) (builtin s nm)
     \<and> downvalues (defn_heap s' definition) = values_of downvalues (defn_heap s) (user s nm) @ values_of downvalues (defn_heap s) (pymathics s nm) @ values_of downvalues (defn_heap s) (builtin s nm)
     \<and> subvalues (defn_heap s' definition) = values_of subvalues (defn_heap s) (user s nm) @ values_of subvalues (defn_heap s) (pymathics s nm) @ values_of subvalues (defn_heap s) (builtin s nm)
     \<and> upvalues (defn_heap s' definition) = values_of upvalues (defn_heap s) (user s nm) @ values_of upvalues (defn_heap s) (pymathics s nm) @ values_of upvalues (defn_heap s) (builtin s nm)
     \<and> nvalues (defn_heap s' definition) = values_of nvalues (defn_heap s) (user s nm) @ values_of nvalues (defn_heap s) (pymathics s nm) @ values_of nvalues (defn_heap s) (builtin s nm)
     \<and> defaultvalues (defn_heap s' definition) = values_of defaultvalues (defn_heap s) (user s nm) @ values_of defaultvalues (defn_heap s) (pymathics s nm) @ values_of defaultvalues (defn_heap s) (builtin s nm)
     \<and> messages (defn_heap s' definition) = values_of messages (defn_heap s) (user s nm) @ values_of messages (defn_heap s) (pymathics s nm) @ values_of messages (defn_heap s) (builtin s nm)
     \<and> highest_priority (user s nm) (pymathics s nm) (builtin s nm) = Some src
     \<and> attributes (defn_heap s' definition) = attributes (defn_heap s src)
     \<and> is_numeric (defn_heap s' definition) = is_numeric (defn_heap s src)
     \<and> options (defn_heap s' definition) =
         options_of (defn_heap s) (builtin s nm) ++ options_of (defn_heap s) (pymathics s nm)
         ++ options_of (defn_heap s) (user s nm)
     \<and> (\<forall>k v. options_of (defn_heap s) (user s nm) k = Some v \<longrightarrow>
           options (defn_heap s' definition) k = Some v)"
proof -
  let ?u = "user s nm" and ?p = "pymathics s nm" and ?b = "builtin s nm"
  let ?cs = "candidates_of ?u ?p ?b"
  let ?bi = "case ?p of Some p \<Rightarrow> Some p | None \<Rightarrow> ?b"
  from lookup_name_extends[OF lk] have ext: "extends s s1" .
  then have same: "user s1 = user s" "pymathics s1 = pymathics s" "builtin s1 = builtin s"
    and na: "next_addr s \<le> next_addr s1"
    and heap: "\<And>a. a < next_addr s \<Longrightarrow> defn_heap s1 a = defn_heap s a"
    by (simp_all add: extends_def)
  obtain a s2 where m: "merge_definitions s1 nm ?u ?p ?b ?cs ?bi = (a, s2)"
    by (cases "merge_definitions s1 nm ?u ?p ?b ?cs ?bi") blast
  let ?s' = "cache_result s2 original_name nm a"
  have two1: "2 \<le> length (candidates_of (user s1 nm) (pymathics s1 nm) (builtin s1 nm))"
    using two by (simp only: same)
  have run: "get_definition fuel s original_name only_if_exists = Inr (Some a, ?s')"
    unfolding get_definition_def
      get_definition_with_merge[where lookup = "lookup_name fuel", OF miss lk two1]
    unfolding same m by simp
  from two have "0 < length ?cs" by linarith
  from highest_priority_Some[OF this] obtain src
    where hp: "highest_priority ?u ?p ?b = Some src" and srcmem: "src \<in> set ?cs" by blast
  note f = merge_definitions_fields[OF m hp]
  have hsrc: "defn_heap s1 src = defn_heap s src" using srcmem alloc heap by blast
  have cong: "\<forall>a. src' = Some a \<longrightarrow> defn_heap s1 a = defn_heap s a"
    if "src' = ?u \<or> src' = ?p \<or> src' = ?b" for src'
    using that alloc heap candidates_mem[of _ ?u ?p ?b] by metis
  have vu: "values_of field (defn_heap s1) ?u = values_of field (defn_heap s) ?u" for field
    by (rule values_of_cong) (rule cong, simp)
  have vp: "values_of field (defn_heap s1) ?p = values_of field (defn_heap s) ?p" for field
    by (rule values_of_cong) (rule cong, simp)
  have vb: "values_of field (defn_heap s1) ?b = values_of field (defn_heap s) ?b" for field
    by (rule values_of_cong) (rule cong, simp)
  have ou: "options_of (defn_heap s1) ?u = options_of (defn_heap s) ?u"
    by (rule options_of_cong) (rule cong, simp)
  have op: "options_of (defn_heap s1) ?p = options_of (defn_heap s) ?p"
    by (rule options_of_cong) (rule cong, simp)
  have ob: "options_of (defn_heap s1) ?b = options_of (defn_heap s) ?b"
    by (rule options_of_cong) (rule cong, simp)
  have dh: "defn_heap (cache_result s2 x y z) = defn_heap s2"
    and nx: "next_addr (cache_result s2 x y z) = next_addr s2" for x y z
    by (simp_all add: cache_result_def)
  have dc: "definitions_cache ?s' original_name = Some a"
    by (simp add: cache_result_def)
  have c1: "next_addr s \<le> a" using f na by (elim conjE) simp
  have c2: "a < next_addr ?s'" using f by (elim conjE) (simp add: nx)
  have opts: "options (defn_heap ?s' a) =
         options_of (defn_heap s) ?b ++ options_of (defn_heap s) ?p ++ options_of (defn_heap s) ?u"
    using f by (elim conjE) (simp add: dh ou op ob)
  have wins: "\<forall>k v. options_of (defn_heap s) ?u k = Some v \<longrightarrow> options (defn_heap ?s' a) k = Some v"
    unfolding opts by (simp add: map_add_Some_iff)
  show ?thesis
    apply (rule exI[of _ a], rule exI[of _ ?s'], rule exI[of _ src])
    apply (intro conjI run c1 c2 dc hp opts wins)
    using f by (elim conjE, simp add: dh vu vp vb hsrc)+
qed

text \<open>
  Claim C1.  When \<^verbatim>\<open>get_definition\<close> misses its cache and the resolved name has
  definitions in two or more of the three namespaces, the result is a new object (its
  address was not in use before the call), entered into the cache under the given name.
  Each of its rule lists for own, down, sub, up, n, default values and messages is the
  user's list, then the plugin's, then the builtin's.  Its attributes and numeric flag
  are those of the first present source in the order user, plugin, builtin.  Its options
  are the builtin's, overridden by the plugin's, overridden by the user's: on a key that
  the user's options have, the user's value stands.
\<close>

theorem get_definition_merges_sources:
  assumes miss: "definitions_cache s original_name = None"
    and lk: "lookup_name fuel s original_name = Inr (nm, s1)"
    and two: "2 \<le> length (candidates_of (user s nm) (pymathics s nm) (builtin s nm))"
    and alloc: "\<forall>c\<in>set (candidates_of (user s nm) (pymathics s nm) (builtin s nm)). c < next_addr s"
  shows "\<exists>definition s' src.
       get_definition fuel s original_name only_if_exists = Inr (Some definition, s')
     \<and> next_addr s \<le> definition \<and> definition < next_addr s'
     \<and> definitions_cache s' original_name = Some definition
     \<and> name (defn_heap s' definition) = nm
     \<and> ownvalues (defn_heap s' definition) = values_of ownvalues (defn_heap s) (user s nm) @ values_of ownvalues (defn_heap s) (pymathics s nm) @ values_of ownvalues (defn_heap s) (builtin s nm)
     \<and> downvalues (defn_heap s' definition) = values_of downvalues (defn_heap s) (user s nm) @ values_of downvalues (defn_heap s) (pymathics s nm) @ values_of downvalues (defn_heap s) (builtin s nm)
     \<and> subvalues (defn_heap s' definition) = values_of subvalues (defn_heap s) (user s nm) @ values_of subvalues (defn_heap s) (pymathics s nm) @ values_of subvalues (defn_heap s) (builtin s nm)
     \<and> upvalues (defn_heap s' definition) = values_of upvalues (defn_heap s) (user s nm) @ values_of upvalues (defn_heap s) (pymathics s nm) @ values_of upvalues (defn_heap s) (builtin s nm)
     \<and> nvalues (defn_heap s' definition) = values_of nvalues (defn_heap s) (user s nm) @ values_of nvalues (defn_heap s) (pymathics s nm) @ values_of nvalues (defn_heap s) (builtin s nm)
     \<and> defaultvalues (defn_heap s' definition) = values_of defaultvalues (defn_heap s) (user s nm) @ values_of defaultvalues (defn_heap s) (pymathics s nm) @ values_of defaultvalues (defn_heap s) (builtin s nm)
     \<and> messages (defn_heap s' definition) = values_of messages (defn_heap s) (user s nm) @ values_of messages (defn_heap s) (pymathics s nm) @ values_of messages (defn_heap s) (builtin s nm)
     \<and> highest_priority (user s nm) (pymathics s nm) (builtin s nm) = Some src
     \<and> attributes (defn_heap s' definition) = attributes (defn_heap s src)
     \<and> is_numeric (defn_heap s' definition) = is_numeric (defn_heap s src)
     \<and> options (defn_heap s' definition) =
         options_of (defn_heap s) (builtin s nm) ++ options_of (defn_heap s) (pymathics s nm)
         ++ options_of (defn_heap s) (user s nm)
     \<and> (\<forall>k v. options_of (defn_heap s) (user s nm) k = Some v \<longrightarrow>
           options (defn_heap s' definition) k = Some v)"
  using assms by (rule get_definition_merge_result)

theorem get_definition_merges_sources_witness:
  "definitions_cache state_merge ''Global`f'' = None \<and>
   lookup_name 2 state_merge ''Global`f'' = Inr (''Global`f'', state_merge) \<and>
   user state_merge ''Global`f'' = Some 1 \<and> pymathics state_merge ''Global`f'' = None \<and>
   builtin state_merge ''Global`f'' = Some 0 \<and>
   downvalues (defn_heap state_merge 0) = [rule_r1] \<and>
   downvalues (defn_heap state_merge 1) = [rule_r2] \<and>
   (\<exists>definition s'.
       get_definition 2 state_merge ''Global`f'' False = Inr (Some definition, s')
     \<and> 2 \<le> definition
     \<and> downvalues (defn_heap s' definition) = [rule_r2, rule_r1]
     \<and> attributes (defn_heap s' definition) = 8
     \<and> options (defn_heap s' definition) ''System`a'' = Some (Integer 2))"
proof -
  have miss: "definitions_cache state_merge ''Global`f'' = None"
    by (simp add: state_merge_def Definitions_init_def)
  have lk: "lookup_name 2 state_merge ''Global`f'' = Inr (''Global`f'', state_merge)"
    by (simp add: numeral_2_eq_2 lookup_name_with_def fully_qualified_symbol_name_def
        starts_with_mark_def state_merge_def Definitions_init_def)
  have ns: "user state_merge ''Global`f'' = Some 1" "pymathics state_merge ''Global`f'' = None"
    "builtin state_merge ''Global`f'' = Some 0" "next_addr state_merge = 2"
    by (simp_all add: state_merge_def Definitions_init_def)
  have dv: "downvalues (defn_heap state_merge 0) = [rule_r1]"
    "downvalues (defn_heap state_merge 1) = [rule_r2]"
    "attributes (defn_heap state_merge 1) = 8"
    "options (defn_heap state_merge 0) = [''System`a'' \<mapsto> Integer 1]"
    "options (defn_heap state_merge 1) = [''System`a'' \<mapsto> Integer 2]"
    by (simp_all add: state_merge_def Definitions_init_def Definition_init_def)
  have two: "2 \<le> length (candidates_of (user state_merge ''Global`f'')
      (pymathics state_merge ''Global`f'') (builtin state_merge ''Global`f''))"
    by (simp add: ns candidates_of_def)
  have alloc: "\<forall>c\<in>set (candidates_of (user state_merge ''Global`f'')
      (pymathics state_merge ''Global`f'') (builtin state_merge ''Global`f'')). c < next_addr state_merge"
    by (simp add: ns candidates_of_def)
  from get_definition_merges_sources[OF miss lk two alloc, of False]
  obtain d s' src where r: "get_definition 2 state_merge ''Global`f'' False = Inr (Some d, s')"
    and fr: "next_addr state_merge \<le> d"
    and dw: "downvalues (defn_heap s' d) =
       values_of downvalues (defn_heap state_merge) (user state_merge ''Global`f'')
       @ values_of downvalues (defn_heap state_merge) (pymathics state_merge ''Global`f'')
       @ values_of downvalues (defn_heap state_merge) (builtin state_merge ''Global`f'')"
    and hp: "highest_priority (user state_merge ''Global`f'') (pymathics state_merge ''Global`f'')
       (builtin state_merge ''Global`f'') = Some src"
    and at: "attributes (defn_heap s' d) = attributes (defn_heap state_merge src)"
    and op: "options (defn_heap s' d) =
         options_of (defn_heap state_merge) (builtin state_merge ''Global`f'')
         ++ options_of (defn_heap state_merge) (pymathics state_merge ''Global`f'')
         ++ options_of (defn_heap state_merge) (user state_merge ''Global`f'')"
    by blast
  have src: "src = 1" using hp by (simp add: ns highest_priority_def)
  have e1: "2 \<le> d" using fr ns by simp
  have e2: "downvalues (defn_heap s' d) = [rule_r2, rule_r1]"
    using dw by (simp add: ns values_of_def dv dv[unfolded One_nat_def])
  have e3: "attributes (defn_heap s' d) = 8" unfolding at src by (rule dv)
  have e4: "options (defn_heap s' d) ''System`a'' = Some (Integer 2)"
    unfolding op by (simp add: ns options_of_def dv dv[unfolded One_nat_def])
  have "\<exists>definition s'.
       get_definition 2 state_merge ''Global`f'' False = Inr (Some definition, s')
     \<and> 2 \<le> definition
     \<and> downvalues (defn_heap s' definition) = [rule_r2, rule_r1]
     \<and> attributes (defn_heap s' definition) = 8
     \<and> options (defn_heap s' definition) ''System`a'' = Some (Integer 2)"
    using r e1 e2 e3 e4 by blast
  then show ?thesis using miss lk ns dv by simp
qed

section \<open>Invalidation and the identity of the result\<close>

lemma clear_cache_name_fields:
  "user (clear_cache s (Some n)) = user s" "pymathics (clear_cache s (Some n)) = pymathics s"
  "builtin (clear_cache s (Some n)) = builtin s" "next_addr (clear_cache s (Some n)) = next_addr s"
  "defn_heap (clear_cache s (Some n)) = defn_heap s"
  by (simp_all add: clear_cache_def Let_def)

text \<open>
  Claim C6, as stated, fails.  In \<^verbatim>\<open>state_user_f\<close> only the user has a definition of
  \<^verbatim>\<open>Global`f\<close>.  \<^verbatim>\<open>get_definition("Global`f")\<close> returns that object and caches it;
  after \<^verbatim>\<open>clear_cache("Global`f")\<close> the cache has no entry for the name, and
  \<^verbatim>\<open>get_definition("Global`f")\<close> returns the same object again: with one candidate the
  result is the candidate itself.
\<close>

theorem get_definition_same_object_after_clear_cache:
  "(case get_definition 2 state_user_f ''Global`f'' False of
      Inl e \<Rightarrow> False
    | Inr (d1, s1) \<Rightarrow>
        d1 = Some 0 \<and> definitions_cache s1 ''Global`f'' = Some 0 \<and>
        definitions_cache (clear_cache s1 (Some ''Global`f'')) ''Global`f'' = None \<and>
        (case get_definition 2 (clear_cache s1 (Some ''Global`f'')) ''Global`f'' False of
           Inl e \<Rightarrow> False
         | Inr (d2, s2) \<Rightarrow> d2 = Some 0))"
  by (simp add: numeral_2_eq_2 eval_defs state_user_f_def)

text \<open>
  Claim C6, amended.  When the cached name is registered in \<^verbatim>\<open>proxy\<close> and its resolved
  name has definitions in two or more namespaces, \<^verbatim>\<open>clear_cache(name)\<close> followed by
  \<^verbatim>\<open>get_definition(name)\<close> returns a new object: its address was not in use before, so
  it is not the object that was cached.
\<close>

theorem get_definition_new_object_after_clear_cache:
  assumes cached: "definitions_cache s original_name = Some old" and ex: "old < next_addr s"
    and reg: "original_name \<in> proxy s (strip_context original_name)"
    and lk: "lookup_name fuel (clear_cache s (Some original_name)) original_name = Inr (nm, s1)"
    and two: "2 \<le> length (candidates_of (user s nm) (pymathics s nm) (builtin s nm))"
    and alloc: "\<forall>c\<in>set (candidates_of (user s nm) (pymathics s nm) (builtin s nm)). c < next_addr s"
  shows "\<exists>definition s'.
      get_definition fuel (clear_cache s (Some original_name)) original_name only_if_exists
        = Inr (Some definition, s')
    \<and> definition \<noteq> old \<and> next_addr s \<le> definition
    \<and> definitions_cache s' original_name = Some definition"
proof -
  let ?c = "clear_cache s (Some original_name)"
  have miss: "definitions_cache ?c original_name = None"
    using reg by (simp add: clear_cache_def Let_def)
  have two': "2 \<le> length (candidates_of (user ?c nm) (pymathics ?c nm) (builtin ?c nm))"
    using two by (simp add: clear_cache_name_fields)
  have alloc': "\<forall>c\<in>set (candidates_of (user ?c nm) (pymathics ?c nm) (builtin ?c nm)). c < next_addr ?c"
    using alloc by (simp add: clear_cache_name_fields)
  from get_definition_merge_result[OF miss lk two' alloc', of only_if_exists]
  obtain d s' where r: "get_definition fuel ?c original_name only_if_exists = Inr (Some d, s')"
    and fr: "next_addr ?c \<le> d" and dc: "definitions_cache s' original_name = Some d"
    by blast
  from fr have "next_addr s \<le> d" by (simp add: clear_cache_name_fields)
  with ex r dc show ?thesis by auto
qed

theorem get_definition_new_object_after_clear_cache_witness:
  "definitions_cache state_merge_cached ''Global`f'' = Some 3 \<and>
   3 < next_addr state_merge_cached \<and>
   ''Global`f'' \<in> proxy state_merge_cached (strip_context ''Global`f'') \<and>
   map_sum id fst (lookup_name 2 (clear_cache state_merge_cached (Some ''Global`f'')) ''Global`f'')
     = Inr ''Global`f'' \<and>
   (\<exists>definition s'.
      get_definition 2 (clear_cache state_merge_cached (Some ''Global`f'')) ''Global`f'' False
        = Inr (Some definition, s')
      \<and> definition \<noteq> 3)"
proof -
  have c: "definitions_cache state_merge_cached ''Global`f'' = Some 3"
    and e: "3 < next_addr state_merge_cached"
    and g: "''Global`f'' \<in> proxy state_merge_cached (strip_context ''Global`f'')"
    by (simp_all add: state_merge_cached_def state_merge_def Definitions_init_def strip_context_def)
  have lk: "lookup_name 2 (clear_cache state_merge_cached (Some ''Global`f'')) ''Global`f''
      = Inr (''Global`f'', clear_cache state_merge_cached (Some ''Global`f''))"
    by (simp add: numeral_2_eq_2 lookup_name_with_def fully_qualified_symbol_name_def
        starts_with_mark_def clear_cache_def Let_def strip_context_def
        state_merge_cached_def state_merge_def Definitions_init_def)
  have ns: "user state_merge_cached ''Global`f'' = Some 1"
    "pymathics state_merge_cached ''Global`f'' = None"
    "builtin state_merge_cached ''Global`f'' = Some 0" "next_addr state_merge_cached = 4"
    by (simp_all add: state_merge_cached_def state_merge_def Definitions_init_def)
  have two: "2 \<le> length (candidates_of (user state_merge_cached ''Global`f'')
      (pymathics state_merge_cached ''Global`f'') (builtin state_merge_cached ''Global`f''))"
    by (simp add: ns candidates_of_def)
  have alloc: "\<forall>c\<in>set (candidates_of (user state_merge_cached ''Global`f'')
      (pymathics state_merge_cached ''Global`f'') (builtin state_merge_cached ''Global`f'')).
        c < next_addr state_merge_cached"
    by (simp add: ns candidates_of_def)
  from get_definition_new_object_after_clear_cache[OF c e g lk two alloc, of False]
  have x: "\<exists>definition s'.
      get_definition 2 (clear_cache state_merge_cached (Some ''Global`f'')) ''Global`f'' False
        = Inr (Some definition, s')
      \<and> definition \<noteq> 3"
    by blast
  show ?thesis using c e g x by (simp add: lk)
qed

section \<open>The caches after a mutation\<close>
































section \<open>A failed removal changes the state\<close>

lemma get_user_definition_new:
  assumes "user s full = None"
  shows "\<exists>s2. get_user_definition s full True = (Some (next_addr s), s2)
     \<and> user s2 = (user s)(full \<mapsto> next_addr s)
     \<and> defn_heap s2 (next_addr s) =
         (Definition_init full)\<lparr>attributes := (case builtin s full of Some b \<Rightarrow> attributes (defn_heap s b) | None \<Rightarrow> A_NO_ATTRIBUTES),
                                 is_numeric := (case builtin s full of Some b \<Rightarrow> is_numeric (defn_heap s b) | None \<Rightarrow> False)\<rparr>
     \<and> now s2 = now s
     \<and> (\<forall>k. definitions_cache s2 k = (if k \<in> proxy s (strip_context full) then None else definitions_cache s k))
     \<and> (\<forall>t. proxy s2 t = (if t = strip_context full then {} else proxy s t))"
  using assms
  by (auto simp: get_user_definition_def clear_cache_def Let_def split: option.splits)

lemma remove_rule_init:
  "remove_rule ((Definition_init full)\<lparr>attributes := a, is_numeric := b\<rparr>) expr
     = Inr (False, (Definition_init full)\<lparr>attributes := a, is_numeric := b\<rparr>)"
proof (cases "get_tag_position expr full")
  case None
  then show ?thesis by (simp add: remove_rule_def Definition_init_def)
next
  case (Some pos)
  from get_tag_position_cases[OF Some] show ?thesis using Some
    by (auto simp: remove_rule_def Definition_init_def get_values_list_def isalpha_def)
qed

lemma unset_new_user_definition:
  assumes lk: "lookup_name fuel s nm = Inr (full, s1)" and nu: "user s full = None"
  shows "\<exists>s'. unset fuel s nm expr = Inr (False, s')
         \<and> user s' = (user s)(full \<mapsto> next_addr s1)
         \<and> next_addr s \<le> next_addr s1
         \<and> name (defn_heap s' (next_addr s1)) = full
         \<and> now s' = now s + 1
         \<and> changed (defn_heap s' (next_addr s1)) = Some (now s + 1)
         \<and> proxy s' (strip_context nm) = {}
         \<and> (\<forall>k\<in>proxy s1 (strip_context nm). definitions_cache s' k = None)
         \<and> (cache_indexed s \<longrightarrow>
              (\<forall>k. strip_context k = strip_context nm \<longrightarrow> definitions_cache s' k = None))"
proof -
  from lookup_name_extends[OF lk] have ext: "extends s s1" .
  then have u1: "user s1 = user s" and n1: "now s1 = now s" and a1: "next_addr s \<le> next_addr s1"
    by (simp_all add: extends_def)
  from nu u1 have "user s1 full = None" by simp
  from get_user_definition_new[OF this] obtain s2 where
    g: "get_user_definition s1 full True = (Some (next_addr s1), s2)"
    and u2: "user s2 = (user s1)(full \<mapsto> next_addr s1)"
    and h2: "defn_heap s2 (next_addr s1) =
         (Definition_init full)\<lparr>attributes := (case builtin s1 full of Some b \<Rightarrow> attributes (defn_heap s1 b) | None \<Rightarrow> A_NO_ATTRIBUTES),
                                 is_numeric := (case builtin s1 full of Some b \<Rightarrow> is_numeric (defn_heap s1 b) | None \<Rightarrow> False)\<rparr>"
    and n2: "now s2 = now s1"
    and c2: "\<forall>k. definitions_cache s2 k = (if k \<in> proxy s1 (strip_context full) then None else definitions_cache s1 k)"
    and p2: "\<forall>t. proxy s2 t = (if t = strip_context full then {} else proxy s1 t)"
    by blast
  let ?a = "next_addr s1"
  let ?d = "defn_heap s2 ?a"
  have rr: "remove_rule ?d expr = Inr (False, ?d)"
    unfolding h2 by (rule remove_rule_init)
  let ?s' = "clear_definitions_cache (mark_changed (update_definition s2 ?a (\<lambda>d. ?d)) ?a) nm"
  have run: "unset fuel s nm expr = Inr (False, ?s')"
    using lk g rr by (simp add: unset_def user_definition_of_def Let_def)
  have f1: "user ?s' = (user s)(full \<mapsto> ?a)"
    using u2 u1 by (simp add: clear_definitions_cache_def mark_changed_def update_definition_def Let_def)
  have f2: "name (defn_heap ?s' ?a) = full"
    by (simp add: clear_definitions_cache_def mark_changed_def update_definition_def Let_def h2
        Definition_init_def)
  have f3: "now ?s' = now s + 1"
    using n1 n2 by (simp add: clear_definitions_cache_def mark_changed_def update_definition_def Let_def)
  have f4: "changed (defn_heap ?s' ?a) = Some (now s + 1)"
    using n1 n2 by (simp add: clear_definitions_cache_def mark_changed_def update_definition_def Let_def)
  have f5: "proxy ?s' (strip_context nm) = {}"
    by (simp add: clear_definitions_cache_def mark_changed_def update_definition_def Let_def)
  have cache: "definitions_cache ?s' k =
      (if k \<in> proxy s2 (strip_context nm) then None else definitions_cache s2 k)" for k
    by (simp add: clear_definitions_cache_def mark_changed_def update_definition_def Let_def)
  have f6: "\<forall>k\<in>proxy s1 (strip_context nm). definitions_cache ?s' k = None"
  proof
    fix k assume k: "k \<in> proxy s1 (strip_context nm)"
    show "definitions_cache ?s' k = None"
    proof (cases "strip_context nm = strip_context full")
      case True
      with k c2 have "definitions_cache s2 k = None" by simp
      then show ?thesis by (simp add: cache)
    next
      case False
      with p2 have "proxy s2 (strip_context nm) = proxy s1 (strip_context nm)" by simp
      with k show ?thesis by (simp add: cache)
    qed
  qed
  have f7: "cache_indexed s \<longrightarrow>
              (\<forall>k. strip_context k = strip_context nm \<longrightarrow> definitions_cache ?s' k = None)"
  proof (intro impI allI)
    fix k assume ci: "cache_indexed s" and sk: "strip_context k = strip_context nm"
    from lookup_name_cache_indexed[OF lk ci] have ci1: "cache_indexed s1" .
    show "definitions_cache ?s' k = None"
    proof (cases "definitions_cache s1 k")
      case None
      with c2 have "definitions_cache s2 k = None" by simp
      then show ?thesis by (simp add: cache)
    next
      case (Some d)
      with ci1 sk have "k \<in> proxy s1 (strip_context nm)" by (auto simp: cache_indexed_def)
      with f6 show ?thesis by blast
    qed
  qed
  show ?thesis
    by (rule exI[of _ ?s']) (intro conjI run f1 a1 f2 f3 f4 f5 f6 f7)
qed

text \<open>
  Claim C10.  \<^verbatim>\<open>unset\<close> on a name whose resolved name has no definition of the user
  returns \<^verbatim>\<open>False\<close>, whatever the pattern (the definition it creates has no rules), and
  changes the state on the way: the user's namespace gains a new object for the resolved
  name, the clock is one higher, the new object's \<^verbatim>\<open>changed\<close> is the new time, the bucket
  of the name's short form is empty and the names that were in it are gone from the cache
  of definitions; in a state where every cached name is registered, no name with that
  short form stays cached.  The call returns: a budget of two and a well-formed context
  path make the lookup return.
\<close>

theorem unset_changes_state_on_failure:
  "(wf_contexts s \<and> 2 \<le> fuel \<longrightarrow> (\<exists>full s1. lookup_name fuel s nm = Inr (full, s1))) \<and>
   (\<forall>full s1. lookup_name fuel s nm = Inr (full, s1) \<and> user s full = None \<longrightarrow>
      (\<exists>s'. unset fuel s nm expr = Inr (False, s')
         \<and> user s' = (user s)(full \<mapsto> next_addr s1)
         \<and> next_addr s \<le> next_addr s1
         \<and> name (defn_heap s' (next_addr s1)) = full
         \<and> now s' = now s + 1
         \<and> changed (defn_heap s' (next_addr s1)) = Some (now s + 1)
         \<and> proxy s' (strip_context nm) = {}
         \<and> (\<forall>k\<in>proxy s1 (strip_context nm). definitions_cache s' k = None)
         \<and> (cache_indexed s \<longrightarrow>
              (\<forall>k. strip_context k = strip_context nm \<longrightarrow> definitions_cache s' k = None))))"
  using lookup_name_total_ge[of s fuel nm] unset_new_user_definition[of fuel s nm _ _ expr]
  by blast

theorem unset_changes_state_on_failure_witness:
  "wf_contexts state_builtin_f_cached \<and> (2::nat) \<le> 2 \<and>
   lookup_name 2 state_builtin_f_cached ''f'' = Inr (''System`f'', state_builtin_f_cached) \<and>
   user state_builtin_f_cached ''System`f'' = None \<and>
   definitions_cache state_builtin_f_cached ''f'' = Some 0 \<and>
   cache_indexed state_builtin_f_cached \<and>
   (\<exists>s'. unset 2 state_builtin_f_cached ''f'' pattern_f_x = Inr (False, s')
      \<and> user s' ''System`f'' = Some 1 \<and> now s' = 1
      \<and> changed (defn_heap s' 1) = Some 1 \<and> definitions_cache s' ''f'' = None)"
proof -
  have w: "wf_contexts state_builtin_f_cached"
    by (simp add: wf_contexts_def state_builtin_f_cached_def Definitions_init_def)
  have l: "lookup_name 2 state_builtin_f_cached ''f'' = Inr (''System`f'', state_builtin_f_cached)"
    by (simp add: numeral_2_eq_2 lookup_name_with_def state_builtin_f_cached_def Definitions_init_def)
  have u: "user state_builtin_f_cached ''System`f'' = None"
    by (simp add: state_builtin_f_cached_def Definitions_init_def)
  have d: "definitions_cache state_builtin_f_cached ''f'' = Some 0"
    by (simp add: state_builtin_f_cached_def Definitions_init_def)
  have ci: "cache_indexed state_builtin_f_cached"
    by (auto simp: cache_indexed_def state_builtin_f_cached_def Definitions_init_def strip_context_def
        split: if_splits)
  have facts: "next_addr state_builtin_f_cached = 1" "now state_builtin_f_cached = 0"
    "strip_context ''f'' = ''f''"
    by (simp_all add: state_builtin_f_cached_def Definitions_init_def strip_context_def)
  from unset_changes_state_on_failure[of state_builtin_f_cached 2 "''f''" pattern_f_x,
      THEN conjunct2, THEN spec, THEN spec, THEN mp, OF conjI[OF l u]]
  obtain s' where r: "unset 2 state_builtin_f_cached ''f'' pattern_f_x = Inr (False, s')"
    and us: "user s' = (user state_builtin_f_cached)(''System`f'' \<mapsto> next_addr state_builtin_f_cached)"
    and nw: "now s' = now state_builtin_f_cached + 1"
    and ch: "changed (defn_heap s' (next_addr state_builtin_f_cached)) = Some (now state_builtin_f_cached + 1)"
    and ev: "cache_indexed state_builtin_f_cached \<longrightarrow>
              (\<forall>k. strip_context k = strip_context ''f'' \<longrightarrow> definitions_cache s' k = None)"
    by blast
  have e1: "user s' ''System`f'' = Some 1" using us facts by simp
  have e2: "now s' = 1" using nw facts by simp
  have e3: "changed (defn_heap s' 1) = Some 1" using ch facts by simp
  have e4: "definitions_cache s' ''f'' = None" using ev ci by blast
  have "\<exists>s'. unset 2 state_builtin_f_cached ''f'' pattern_f_x = Inr (False, s')
      \<and> user s' ''System`f'' = Some 1 \<and> now s' = 1
      \<and> changed (defn_heap s' 1) = Some 1 \<and> definitions_cache s' ''f'' = None"
    using r e1 e2 e3 e4 by blast
  then show ?thesis using w l u d ci by simp
qed

end
